theory Spec2Isabelle
  imports Main "HOL-Library.Word"
begin

unbundle bit_operations_syntax

section \<open>Common data\<close>

type_synonym byte = "8 word"
type_synonym uint32 = "32 word"
type_synonym uint64 = "64 word"

text \<open>
  Every error value the two request functions can hand back. The first group are the
  errors of the collaborators (resolver, sockets, TLS, the HTTP/2 framer, the HPACK and
  QPACK decoders, the QUIC stream); their identity is kept as a number. The second group
  are the errors the repository builds itself with \<open>fmt.Errorf\<close>: the two HTTP/2 ones
  embed the peer's error code in the message, the two HTTP/3 ones are fixed strings.
\<close>

datatype error =
    EOF
  | ErrUnexpectedEOF
  | QuicError (IsApplicationError: bool)
  | OtherError nat
  | ErrGoAway uint32
  | ErrRSTStream uint32
  | ErrInvalidPort error
  | ErrTimeout
  | ErrConnDrop

text \<open>\<open>utils.Header\<close> / \<open>types.Header\<close>: Go strings are byte sequences.\<close>

record Header =
  Name :: "byte list"
  Value :: "byte list"

text \<open>\<open>utils.HTTPMessage\<close>, \<open>types.HttpRequest\<close>, \<open>types.HttpResponse\<close>.\<close>

record HTTPMessage =
  Headers :: "Header list"
  Body :: "byte list"

definition bindE :: "'e + 'a \<Rightarrow> ('a \<Rightarrow> 'e + 'b) \<Rightarrow> 'e + 'b" where
  "bindE m f = (case m of Inl e \<Rightarrow> Inl e | Inr x \<Rightarrow> f x)"

section \<open>The variable-length integer codec (HTTP/3 path)\<close>

definition maxVarInt1 :: uint64 where "maxVarInt1 = 63"
definition maxVarInt2 :: uint64 where "maxVarInt2 = 16383"
definition maxVarInt4 :: uint64 where "maxVarInt4 = 1073741823"
definition maxVarInt8 :: uint64 where "maxVarInt8 = 4611686018427387903"

text \<open>
  A byte source: the bytes that will still arrive, and the error its read operations
  return once they are used up (\<open>io.EOF\<close> for a cleanly closed stream).
\<close>

record reader =
  avail :: "byte list"
  closing :: error

definition ReadByte :: "reader \<Rightarrow> error + (byte \<times> reader)" where
  "ReadByte b = (case avail b of
      [] \<Rightarrow> Inl (closing b)
    | x # xs \<Rightarrow> Inr (x, b\<lparr>avail := xs\<rparr>))"

text \<open>
  \<open>readVarInt\<close>: \<open>intLen\<close> is a Go \<open>int\<close>, one of 1, 2, 4, 8; the value is assembled in
  \<open>uint64\<close> arithmetic, the shift binding tighter than the addition.
\<close>

definition readVarInt :: "reader \<Rightarrow> error + (uint64 \<times> reader)" where
  "readVarInt b0 =
     bindE (ReadByte b0) (\<lambda>(firstByte, b).
       let intLen = push_bit (unat (drop_bit 6 (firstByte AND 0xc0))) (1::int);
           b1 = firstByte AND (0xff - 0xc0)
       in if intLen = 1 then Inr (ucast b1, b) else
     bindE (ReadByte b) (\<lambda>(b2, b).
       if intLen = 2 then Inr (ucast b2 + push_bit 8 (ucast b1), b) else
     bindE (ReadByte b) (\<lambda>(b3, b).
     bindE (ReadByte b) (\<lambda>(b4, b).
       if intLen = 4
       then Inr (ucast b4 + push_bit 8 (ucast b3) + push_bit 16 (ucast b2)
                   + push_bit 24 (ucast b1), b) else
     bindE (ReadByte b) (\<lambda>(b5, b).
     bindE (ReadByte b) (\<lambda>(b6, b).
     bindE (ReadByte b) (\<lambda>(b7, b).
     bindE (ReadByte b) (\<lambda>(b8, b).
       Inr (ucast b8 + push_bit 8 (ucast b7) + push_bit 16 (ucast b6)
              + push_bit 24 (ucast b5) + push_bit 32 (ucast b4) + push_bit 40 (ucast b3)
              + push_bit 48 (ucast b2) + push_bit 56 (ucast b1), b)))))))))"

text \<open>
  The ways a call ends without returning: the panic of \<open>writeVarInt\<close>, which carries the
  offending value as the message does, and \<open>make([]byte, l)\<close> not returning (the runtime
  panic for a length out of range, or the process dying for want of memory).
\<close>

datatype panic = DoesNotFit uint64 | MakeSlice uint64

text \<open>
  \<open>writeVarInt\<close> appends to a \<open>bytes.Buffer\<close> (here: returns the buffer extended) or
  panics; the panic is the \<open>Inl\<close> branch.
\<close>

definition writeVarInt :: "byte list \<Rightarrow> uint64 \<Rightarrow> panic + byte list" where
  "writeVarInt b i =
     (if i \<le> maxVarInt1 then Inr (b @ [ucast i])
      else if i \<le> maxVarInt2 then Inr (b @ [ucast (drop_bit 8 i) OR 0x40, ucast i])
      else if i \<le> maxVarInt4 then
        Inr (b @ [ucast (drop_bit 24 i) OR 0x80, ucast (drop_bit 16 i),
                  ucast (drop_bit 8 i), ucast i])
      else if i \<le> maxVarInt8 then
        Inr (b @ [ucast (drop_bit 56 i) OR 0xc0, ucast (drop_bit 48 i),
                  ucast (drop_bit 40 i), ucast (drop_bit 32 i),
                  ucast (drop_bit 24 i), ucast (drop_bit 16 i),
                  ucast (drop_bit 8 i), ucast i])
      else Inl (DoesNotFit i))"

text \<open>
  The wire form the format description gives for a chosen width: \<open>w\<close> bytes, big-endian,
  with the class bits \<open>00\<close>, \<open>01\<close>, \<open>10\<close>, \<open>11\<close> in the top of the first byte. It is
  written from the description, not from \<open>writeVarInt\<close>, and covers the non-minimal
  forms too.
\<close>

definition classBits :: "nat \<Rightarrow> byte" where
  "classBits w = (if w = 1 then 0x00 else if w = 2 then 0x40 else if w = 4 then 0x80 else 0xc0)"

definition bigEndian :: "nat \<Rightarrow> uint64 \<Rightarrow> byte list" where
  "bigEndian w v = map (\<lambda>k. ucast (drop_bit (8 * (w - 1 - k)) v)) [0..<w]"

definition varIntForm :: "nat \<Rightarrow> uint64 \<Rightarrow> byte list" where
  "varIntForm w v = (case bigEndian w v of [] \<Rightarrow> [] | x # xs \<Rightarrow> (x OR classBits w) # xs)"


section \<open>HTTP/2: building the request\<close>

subsection \<open>The literal header block writer\<close>

text \<open>
  The loop of \<open>hpackAppendVarInt\<close>: \<open>for ; val >= 128; val >>= 7\<close>, followed by the
  final \<open>append\<close>.
\<close>

function hpackAppendVarInt_loop :: "byte list \<Rightarrow> uint64 \<Rightarrow> byte list" where
  "hpackAppendVarInt_loop dst val =
     (if val \<ge> 128
      then hpackAppendVarInt_loop (dst @ [ucast (0x80 OR (val AND 0x7f))]) (drop_bit 7 val)
      else dst @ [ucast val])"
  by pat_completeness auto
termination
proof (relation "measure (\<lambda>(dst, val). unat val)")
  show "wf (measure (\<lambda>(dst, val). unat val))" by simp
next
  fix dst :: "byte list" and val :: uint64
  assume "128 \<le> val"
  then have "128 \<le> unat val" by (simp add: word_le_nat_alt)
  then have "unat val div 2 ^ 7 < unat val" by simp
  then have "unat (drop_bit 7 val) < unat val"
    unfolding unat_drop_bit_eq by (simp only: drop_bit_eq_div)
  then show "((dst @ [ucast (0x80 OR (val AND 0x7f))], drop_bit 7 val), (dst, val))
      \<in> measure (\<lambda>(dst, val). unat val)"
    by (simp only: in_measure prod.case)
qed

declare hpackAppendVarInt_loop.simps [simp del]

text \<open>
  \<open>k := uint64((1 << n) - 1)\<close>: the constant 1 takes the type \<open>uint64\<close>, and a shift
  by 64 or more gives 0.
\<close>

definition hpackAppendVarInt :: "byte list \<Rightarrow> byte \<Rightarrow> uint64 \<Rightarrow> byte list" where
  "hpackAppendVarInt dst n val =
     (let k = push_bit (unat n) (1::uint64) - 1
      in if val < k then dst @ [ucast val]
         else hpackAppendVarInt_loop (dst @ [ucast k]) (val - k))"

text \<open>
  \<open>uint64(len(h.Name))\<close>: a Go length is a non-negative \<open>int\<close>, so the conversion is
  exact for every string that can exist (fewer than \<open>2 ^ 63\<close> bytes).
\<close>

definition hpackAppendHeader :: "byte list \<Rightarrow> Header \<Rightarrow> byte list" where
  "hpackAppendHeader dst0 h =
     (let dst = dst0 @ [0x10];
          dst = hpackAppendVarInt dst 7 (of_nat (length (Name h)));
          dst = dst @ Name h;
          dst = hpackAppendVarInt dst 7 (of_nat (length (Value h)));
          dst = dst @ Value h
      in dst)"

subsection \<open>The frame writer\<close>

text \<open>
  The calls made on the \<open>http2.Framer\<close>. The framer belongs to
  \<open>golang.org/x/net/http2\<close>; what it appends to the request buffer for one call is a
  parameter \<open>wr\<close> of the model (nothing, when the call returns an error: the source
  discards every error of the framer).
\<close>

record Setting =
  ID :: "16 word"
  Val :: uint32

definition SettingInitialWindowSize :: "16 word" where
  "SettingInitialWindowSize = 0x4"

record HeadersFrameParam =
  StreamID :: uint32
  BlockFragment :: "byte list"
  EndStream :: bool
  EndHeaders :: bool

datatype framer_call =
    WriteSettings "Setting list"
  | WriteWindowUpdate uint32 uint32
  | WriteHeaders HeadersFrameParam
  | WriteData uint32 bool "byte list"
  | WriteSettingsAck

type_synonym framer = "framer_call \<Rightarrow> byte list"

text \<open>\<open>http2.ClientPreface\<close>, the 24 bytes \<open>PRI * HTTP/2.0\r\n\r\nSM\r\n\r\n\<close>.\<close>

definition ClientPreface :: "byte list" where
  "ClientPreface =
     [0x50, 0x52, 0x49, 0x20, 0x2a, 0x20, 0x48, 0x54, 0x54, 0x50, 0x2f, 0x32,
      0x2e, 0x30, 0x0d, 0x0a, 0x0d, 0x0a, 0x53, 0x4d, 0x0d, 0x0a, 0x0d, 0x0a]"

text \<open>
  The body loop of \<open>prepareHTTP2Request\<close>; \<open>request.Body[start:end]\<close> is in range
  whenever it is taken.
\<close>

function writeDataLoop :: "framer \<Rightarrow> byte list \<Rightarrow> nat \<Rightarrow> byte list \<Rightarrow> byte list" where
  "writeDataLoop wr body start requestBuf =
     (if start < length body
      then let end0 = start + 65536;
               end1 = (if end0 > length body then length body else end0)
           in writeDataLoop wr body end1
                (requestBuf @ wr (WriteData 1 (end1 = length body)
                                    (take (end1 - start) (drop start body))))
      else requestBuf)"
  by pat_completeness auto
termination
  by (relation "measure (\<lambda>(wr, body, start, requestBuf). length body - start)") auto

declare writeDataLoop.simps [simp del]

definition prepareHTTP2Request :: "framer \<Rightarrow> HTTPMessage \<Rightarrow> byte list" where
  "prepareHTTP2Request wr request =
     (let hpackBuf = foldl hpackAppendHeader [] (Headers request);
          requestBuf = ClientPreface;
          requestBuf = requestBuf @ wr (WriteSettings
                         [\<lparr>ID = SettingInitialWindowSize, Val = 2 ^ 30 - 1\<rparr>]);
          requestBuf = requestBuf @ wr (WriteWindowUpdate 0 (2 ^ 30 - 2 ^ 16 - 1));
          requestBuf = requestBuf @ wr (WriteHeaders
                         \<lparr>StreamID = 1, BlockFragment = hpackBuf,
                          EndStream = (length (Body request) = 0), EndHeaders = True\<rparr>);
          requestBuf = writeDataLoop wr (Body request) 0 requestBuf;
          requestBuf = requestBuf @ wr WriteSettingsAck
      in requestBuf)"

text \<open>
  The framer as a function: the frame layout of RFC 7540, section 4.1 (24-bit payload
  length, type, flags, 31-bit stream identifier, payload), with the flag values
  END_STREAM = 1, END_HEADERS = 4, ACK = 1. The length field has 24 bits: for a payload of
  \<open>2 ^ 24\<close> bytes or more the framer writes nothing and returns an error, which
  \<open>prepareHTTP2Request\<close> discards.
\<close>

definition be24 :: "nat \<Rightarrow> byte list" where
  "be24 n = [of_nat (n div 65536), of_nat (n div 256), of_nat n]"

definition be32 :: "uint32 \<Rightarrow> byte list" where
  "be32 x = [ucast (drop_bit 24 x), ucast (drop_bit 16 x), ucast (drop_bit 8 x), ucast x]"

definition be16 :: "16 word \<Rightarrow> byte list" where
  "be16 x = [ucast (drop_bit 8 x), ucast x]"

definition rfcFrame :: "byte \<Rightarrow> byte \<Rightarrow> uint32 \<Rightarrow> byte list \<Rightarrow> byte list" where
  "rfcFrame ty flags sid payload =
     (if length payload \<ge> 2 ^ 24 then []
      else be24 (length payload) @ [ty, flags] @ be32 sid @ payload)"

fun rfcFramer :: framer where
  "rfcFramer (WriteSettings ss) =
     rfcFrame 0x4 0 0 (concat (map (\<lambda>s. be16 (ID s) @ be32 (Val s)) ss))"
| "rfcFramer (WriteWindowUpdate sid incr) = rfcFrame 0x8 0 sid (be32 incr)"
| "rfcFramer (WriteHeaders p) =
     rfcFrame 0x1 ((if EndStream p then 0x1 else 0) OR (if EndHeaders p then 0x4 else 0))
       (StreamID p) (BlockFragment p)"
| "rfcFramer (WriteData sid endStream data) =
     rfcFrame 0x0 (if endStream then 0x1 else 0) sid data"
| "rfcFramer WriteSettingsAck = rfcFrame 0x4 0x1 0 []"

subsection \<open>What the header block and the DATA frames are said to be\<close>

text \<open>
  The 7-bit-prefixed integer as the format description words it: a value below 127 is one
  byte; any other value is the byte 127 followed by the value minus 127 in groups of
  seven bits, least significant group first, the high bit set on every byte but the last.
\<close>

fun continuation7 :: "nat \<Rightarrow> nat list" where
  "continuation7 m = (if m < 128 then [m] else (128 + m mod 128) # continuation7 (m div 128))"

declare continuation7.simps [simp del]

definition prefixedInt7 :: "nat \<Rightarrow> nat list" where
  "prefixedInt7 v = (if v < 127 then [v] else 127 # continuation7 (v - 127))"

text \<open>One field as a literal with a new name that is never indexed.\<close>

definition literalField :: "Header \<Rightarrow> byte list" where
  "literalField h =
     [0x10] @ map of_nat (prefixedInt7 (length (Name h))) @ Name h
            @ map of_nat (prefixedInt7 (length (Value h))) @ Value h"

text \<open>
  The body cut every 65536 bytes: chunk \<open>i\<close> of \<open>n\<close>, the last one (and only it) with
  the end-of-stream flag.
\<close>

definition chunkCount :: "byte list \<Rightarrow> nat" where
  "chunkCount body = (length body + 65535) div 65536"

definition chunk :: "byte list \<Rightarrow> nat \<Rightarrow> byte list" where
  "chunk body i = take 65536 (drop (i * 65536) body)"

definition dataCall :: "byte list \<Rightarrow> nat \<Rightarrow> framer_call" where
  "dataCall body i = WriteData 1 (Suc i = chunkCount body) (chunk body i)"

subsection \<open>A decoder for literal header blocks\<close>

text \<open>
  A reader for the part of the HPACK format (RFC 7541) that needs neither a table nor
  Huffman codes: integers with a prefix (section 5.1), string literals sent as raw bytes
  (section 5.2) and the three literal field representations with a new name (sections
  6.2.1 to 6.2.3). Anything else is \<open>None\<close>. It stands for the decompression a peer
  applies to the block.
\<close>

fun decodeContinuation :: "nat \<Rightarrow> nat \<Rightarrow> byte list \<Rightarrow> (nat \<times> byte list) option" where
  "decodeContinuation i m [] = None"
| "decodeContinuation i m (b # bs) =
     (let i' = i + unat (b AND 0x7f) * 2 ^ m
      in if b AND 0x80 = 0x80 then decodeContinuation i' (m + 7) bs else Some (i', bs))"

definition decodeInteger :: "nat \<Rightarrow> byte list \<Rightarrow> (nat \<times> byte list) option" where
  "decodeInteger n bs =
     (case bs of
        [] \<Rightarrow> None
      | b # rest \<Rightarrow>
          let i = unat (b AND mask n)
          in if i < 2 ^ n - 1 then Some (i, rest) else decodeContinuation i 0 rest)"

definition decodeString :: "byte list \<Rightarrow> (byte list \<times> byte list) option" where
  "decodeString bs =
     (case bs of
        [] \<Rightarrow> None
      | b # _ \<Rightarrow>
          if b AND 0x80 = 0x80 then None
          else (case decodeInteger 7 bs of
                  None \<Rightarrow> None
                | Some (len, rest) \<Rightarrow>
                    if length rest < len then None
                    else Some (take len rest, drop len rest)))"

fun decodeFields :: "nat \<Rightarrow> byte list \<Rightarrow> Header list option" where
  "decodeFields fuel [] = Some []"
| "decodeFields 0 (b # rest) = None"
| "decodeFields (Suc fuel) (b # rest) =
     (if b = 0x10 \<or> b = 0x00 \<or> b = 0x40
      then (case decodeString rest of
              None \<Rightarrow> None
            | Some (name, rest1) \<Rightarrow>
                (case decodeString rest1 of
                   None \<Rightarrow> None
                 | Some (val, rest2) \<Rightarrow>
                     map_option (\<lambda>hs. \<lparr>Name = name, Value = val\<rparr> # hs)
                       (decodeFields fuel rest2)))
      else None)"

text \<open>Every field takes at least one byte, so the length of the block is fuel enough.\<close>

definition decodeHeaderBlock :: "byte list \<Rightarrow> Header list option" where
  "decodeHeaderBlock bs = decodeFields (length bs) bs"

text \<open>
  The literal writer and reader as a stateless compressor and decompressor, one call of
  the reader per complete block. They are used to run the two request paths on concrete
  messages.
\<close>

definition literalEncoder :: "unit \<Rightarrow> Header \<Rightarrow> unit \<times> byte list" where
  "literalEncoder e h = (e, literalField h)"

definition literalDecoder :: "unit \<Rightarrow> byte list \<Rightarrow> unit \<times> Header list \<times> error option" where
  "literalDecoder d bs =
     (case decodeHeaderBlock bs of
        None \<Rightarrow> (d, [], Some (OtherError 0))
      | Some hs \<Rightarrow> (d, hs, None))"

section \<open>HTTP/2: reading the response\<close>

text \<open>
  The frames \<open>ReadFrame\<close> returns, reduced to what the loop looks at: the stream
  identifier of the frame header first, then, per type, \<open>Data()\<close> and \<open>StreamEnded()\<close>;
  \<open>HeaderBlockFragment()\<close>, \<open>HeadersEnded()\<close> and \<open>StreamEnded()\<close>;
  \<open>HeaderBlockFragment()\<close> and \<open>HeadersEnded()\<close>; \<open>ErrCode\<close>; \<open>ErrCode\<close>.
  \<open>OtherFrame\<close> stands for every type the loop has no case for (PRIORITY, SETTINGS,
  PUSH_PROMISE, PING, WINDOW_UPDATE, unknown types).
\<close>

datatype frame =
    DataFrame uint32 "byte list" bool
  | HeadersFrame uint32 "byte list" bool bool
  | ContinuationFrame uint32 "byte list" bool
  | RSTStreamFrame uint32 uint32
  | GoAwayFrame uint32 uint32
  | OtherFrame uint32

fun frameStreamID :: "frame \<Rightarrow> uint32" where
  "frameStreamID (DataFrame sid _ _) = sid"
| "frameStreamID (HeadersFrame sid _ _ _) = sid"
| "frameStreamID (ContinuationFrame sid _ _) = sid"
| "frameStreamID (RSTStreamFrame sid _) = sid"
| "frameStreamID (GoAwayFrame sid _) = sid"
| "frameStreamID (OtherFrame sid) = sid"

text \<open>
  A header decompressor (\<open>hpack.Decoder\<close>, \<open>qpack.Decoder\<close>) is a collaborator: \<open>Write\<close>
  takes its state and the bytes, and gives the new state, the fields it handed to the
  callback during the call, in order, and the error it returned, if any.
\<close>

type_synonym 'd fieldDecoder = "'d \<Rightarrow> byte list \<Rightarrow> 'd \<times> Header list \<times> error option"

record 'd h2state =
  response :: HTTPMessage
  headersDecoder :: 'd
  hasBody :: bool
  bodyRead :: bool
  headersDone :: bool

text \<open>The \<open>switch\<close> of the loop, for a frame on stream 1; \<open>Inl\<close> is a \<open>return\<close> with an error.\<close>

fun handleFrame :: "'d fieldDecoder \<Rightarrow> 'd h2state \<Rightarrow> frame \<Rightarrow> error + 'd h2state" where
  "handleFrame W st (HeadersFrame sid fragment headersEnded streamEnded) =
     (case W (headersDecoder st) fragment of
        (d, emitted, Some err) \<Rightarrow> Inl err
      | (d, emitted, None) \<Rightarrow>
          Inr (st\<lparr>response := (response st)\<lparr>Headers := Headers (response st) @ emitted\<rparr>,
                  headersDecoder := d, headersDone := headersEnded,
                  hasBody := \<not> streamEnded\<rparr>))"
| "handleFrame W st (ContinuationFrame sid fragment headersEnded) =
     (case W (headersDecoder st) fragment of
        (d, emitted, Some err) \<Rightarrow> Inl err
      | (d, emitted, None) \<Rightarrow>
          Inr (st\<lparr>response := (response st)\<lparr>Headers := Headers (response st) @ emitted\<rparr>,
                  headersDecoder := d, headersDone := headersEnded\<rparr>))"
| "handleFrame W st (DataFrame sid data streamEnded) =
     Inr (st\<lparr>response := (response st)\<lparr>Body := Body (response st) @ data\<rparr>,
             bodyRead := streamEnded\<rparr>)"
| "handleFrame W st (RSTStreamFrame sid code) = Inl (ErrRSTStream code)"
| "handleFrame W st (GoAwayFrame sid code) = Inr st"
| "handleFrame W st (OtherFrame sid) = Inr st"

text \<open>
  The connection is the frames \<open>ReadFrame\<close> will return and the error of the call after
  the last of them (deadline, end of input, a frame the framer rejects). The result is the
  pair the Go function returns.
\<close>

fun readLoop :: "'d fieldDecoder \<Rightarrow> error \<Rightarrow> 'd h2state \<Rightarrow> frame list \<Rightarrow> HTTPMessage \<times> error option" where
  "readLoop W failure st [] =
     (if \<not> headersDone st \<or> (hasBody st \<and> \<not> bodyRead st)
      then (\<lparr>Headers = [], Body = []\<rparr>, Some failure)
      else (response st, None))"
| "readLoop W failure st (f # rest) =
     (if \<not> headersDone st \<or> (hasBody st \<and> \<not> bodyRead st)
      then (case f of
              GoAwayFrame sid code \<Rightarrow> (\<lparr>Headers = [], Body = []\<rparr>, Some (ErrGoAway code))
            | _ \<Rightarrow>
                if frameStreamID f \<noteq> 1 then readLoop W failure st rest
                else (case handleFrame W st f of
                        Inl err \<Rightarrow> (\<lparr>Headers = [], Body = []\<rparr>, Some err)
                      | Inr st' \<Rightarrow> readLoop W failure st' rest))
      else (response st, None))"

definition initialState :: "'d \<Rightarrow> 'd h2state" where
  "initialState d0 =
     \<lparr>response = \<lparr>Headers = [], Body = []\<rparr>, headersDecoder = d0,
      hasBody = False, bodyRead = False, headersDone = False\<rparr>"

text \<open>
  What the surroundings of one call of \<open>SendHTTP2Request\<close> do: the error, if any, of the
  lookup, of the dial, of opening the key log file (asked for only when a file name is
  given) and of writing the request, then the frames received.
\<close>

record h2env =
  h2LookUp :: "error option"
  h2Dial :: "error option"
  h2KeyLogFile :: string
  h2OpenFile :: "error option"
  h2Write :: "error option"
  h2Frames :: "frame list"
  h2ReadError :: error

definition SendHTTP2Request :: "'d fieldDecoder \<Rightarrow> 'd \<Rightarrow> h2env \<Rightarrow> HTTPMessage \<times> error option" where
  "SendHTTP2Request W d0 env =
     (case h2LookUp env of
        Some err \<Rightarrow> (\<lparr>Headers = [], Body = []\<rparr>, Some err)
      | None \<Rightarrow>
     (case h2Dial env of
        Some err \<Rightarrow> (\<lparr>Headers = [], Body = []\<rparr>, Some err)
      | None \<Rightarrow>
     (case (if h2KeyLogFile env \<noteq> [] then h2OpenFile env else None) of
        Some err \<Rightarrow> (\<lparr>Headers = [], Body = []\<rparr>, Some err)
      | None \<Rightarrow>
     (case h2Write env of
        Some err \<Rightarrow> (\<lparr>Headers = [], Body = []\<rparr>, Some err)
      | None \<Rightarrow> readLoop W (h2ReadError env) (initialState d0) (h2Frames env)))))"

text \<open>
  The frame a peer reads for a frame written, as far as the loop looks at it; the
  agreement of the framer's writer and reader is theirs.
\<close>

fun received :: "framer_call \<Rightarrow> frame" where
  "received (WriteSettings ss) = OtherFrame 0"
| "received (WriteWindowUpdate sid incr) = OtherFrame sid"
| "received (WriteHeaders p) =
     HeadersFrame (StreamID p) (BlockFragment p) (EndHeaders p) (EndStream p)"
| "received (WriteData sid endStream data) = DataFrame sid data endStream"
| "received WriteSettingsAck = OtherFrame 0"

section \<open>HTTP/3\<close>

subsection \<open>Building the request\<close>

text \<open>
  \<open>qpack.Encoder.WriteField\<close> is a collaborator: from its state and a field it gives the
  new state and the bytes it appends to \<open>qpackBuf\<close>. Its error is discarded by the source.
\<close>

type_synonym 'e fieldEncoder = "'e \<Rightarrow> Header \<Rightarrow> 'e \<times> byte list"

fun writeFields :: "'e fieldEncoder \<Rightarrow> 'e \<Rightarrow> byte list \<Rightarrow> Header list \<Rightarrow> byte list" where
  "writeFields WF e qpackBuf [] = qpackBuf"
| "writeFields WF e qpackBuf (h # hs) =
     (case WF e h of (e', bs) \<Rightarrow> writeFields WF e' (qpackBuf @ bs) hs)"

definition encodeHeaders :: "'e fieldEncoder \<Rightarrow> 'e \<Rightarrow> Header list \<Rightarrow> panic + byte list" where
  "encodeHeaders WF e0 headers =
     (let qpackBuf = writeFields WF e0 [] headers
      in bindE (writeVarInt [] 0x1) (\<lambda>headersFrame.
         bindE (writeVarInt headersFrame (of_nat (length qpackBuf))) (\<lambda>headersFrame.
         Inr (headersFrame @ qpackBuf))))"

definition encodeBody :: "byte list \<Rightarrow> panic + byte list list" where
  "encodeBody body =
     (if length body = 0 then Inr []
      else bindE (writeVarInt [] 0x00) (\<lambda>buf.
           bindE (writeVarInt buf (of_nat (length body))) (\<lambda>buf.
           Inr [buf @ body])))"

definition prepareHTTP3Request :: "'e fieldEncoder \<Rightarrow> 'e \<Rightarrow> HTTPMessage \<Rightarrow> panic + byte list list" where
  "prepareHTTP3Request WF e0 request =
     bindE (encodeHeaders WF e0 (Headers request)) (\<lambda>hf.
     bindE (encodeBody (Body request)) (\<lambda>bfs.
     Inr ([hf] @ bfs)))"

subsection \<open>Reading the response\<close>

record http3Frame =
  Type :: int
  Len :: uint64
  Data :: "byte list"

text \<open>
  \<open>io.ReadFull\<close> on a buffer of \<open>n\<close> bytes: nothing is read for \<open>n = 0\<close>; when the
  source runs dry first, its error is returned, \<open>io.EOF\<close> becoming
  \<open>io.ErrUnexpectedEOF\<close> if some bytes had been read.
\<close>

definition ReadFull :: "reader \<Rightarrow> nat \<Rightarrow> error + (byte list \<times> reader)" where
  "ReadFull b n =
     (if n = 0 then Inr ([], b)
      else if n \<le> length (avail b)
      then Inr (take n (avail b), b\<lparr>avail := drop n (avail b)\<rparr>)
      else Inl (if avail b \<noteq> [] \<and> closing b = EOF then ErrUnexpectedEOF else closing b))"

text \<open>
  \<open>readFrame\<close> returns an error, returns a frame, or does not return: the length it has
  read is the peer's, and \<open>make([]byte, l)\<close> gives a buffer only up to a limit of the
  runtime and the machine, \<open>maxAlloc\<close>, a parameter here.
\<close>

datatype 'a attempt = Panics panic | Fails error | Gives 'a

definition readFrame :: "nat \<Rightarrow> reader \<Rightarrow> (http3Frame \<times> reader) attempt" where
  "readFrame maxAlloc b0 =
     (case readVarInt b0 of
        Inl err \<Rightarrow> Fails err
      | Inr (t, b) \<Rightarrow>
     (case readVarInt b of
        Inl err \<Rightarrow> Fails err
      | Inr (l, b) \<Rightarrow>
          if maxAlloc < unat l then Panics (MakeSlice l)
          else
     (case ReadFull b (unat l) of
        Inl err \<Rightarrow> Fails err
      | Inr (data, b) \<Rightarrow> Gives (\<lparr>Type = sint t, Len = l, Data = data\<rparr>, b))))"

text \<open>
  The \<open>for\<close> loop of \<open>SendHTTP3Request\<close>. \<open>ctxErr\<close> is whether \<open>ctx.Err()\<close> is non-nil
  when the failed read is looked at; there is one such moment at most, since every
  failed read leaves the loop.
\<close>

function readFrames ::
  "nat \<Rightarrow> 'd fieldDecoder \<Rightarrow> bool \<Rightarrow> Header list \<Rightarrow> byte list \<Rightarrow> 'd \<Rightarrow> reader
     \<Rightarrow> panic + (HTTPMessage option \<times> error option)" where
  "readFrames maxAlloc W ctxErr headers body decoder b =
     (case readFrame maxAlloc b of
        Panics p \<Rightarrow> Inl p
      | Fails err \<Rightarrow>
          if ctxErr then Inr (None, Some ErrTimeout)
          else if err = EOF then Inr (Some \<lparr>Headers = headers, Body = body\<rparr>, None)
          else if (case err of QuicError isApp \<Rightarrow> isApp | _ \<Rightarrow> False)
          then Inr (None, Some ErrConnDrop)
          else Inr (None, Some err)
      | Gives (frame, b') \<Rightarrow>
          if Type frame = 0x0
          then readFrames maxAlloc W ctxErr headers (body @ Data frame) decoder b'
          else if Type frame = 0x1 then
            (case W decoder (Data frame) of
               (d, emitted, Some err) \<Rightarrow> Inr (None, Some err)
             | (d, emitted, None) \<Rightarrow> readFrames maxAlloc W ctxErr (headers @ emitted) body d b')
          else readFrames maxAlloc W ctxErr headers body decoder b')"
  by pat_completeness auto
termination
proof (relation "measure (\<lambda>(maxAlloc, W, ctxErr, headers, body, decoder, b). length (avail b))")
  have rv: "length (avail b') < length (avail b)" if "readVarInt b = Inr (v, b')"
    for b b' :: reader and v
    using that
    by (auto simp add: readVarInt_def bindE_def ReadByte_def Let_def
        split: sum.splits list.splits if_splits prod.splits)
  have rf: "length (avail b') \<le> length (avail b)" if "ReadFull b n = Inr (d, b')"
    for b b' :: reader and n d
    using that by (auto simp add: ReadFull_def split: if_splits)
  have fr: "length (avail b') < length (avail b)" if "readFrame maxAlloc b = Gives (frame, b')"
    for b b' :: reader and frame maxAlloc
  proof -
    from that obtain t b1 l b2 d where "readVarInt b = Inr (t, b1)"
      and "readVarInt b1 = Inr (l, b2)" and "ReadFull b2 (unat l) = Inr (d, b')"
      by (auto simp add: readFrame_def split: sum.splits prod.splits if_splits)
    then show ?thesis using rv[of b t b1] rv[of b1 l b2] rf[of b2 "unat l" d b'] by simp
  qed
  show "wf (measure (\<lambda>(maxAlloc, W, ctxErr, headers, body, decoder, b). length (avail b)))"
    by simp
  fix maxAlloc and W :: "'d fieldDecoder" and ctxErr headers body decoder b x3 x y
  assume "readFrame maxAlloc b = Gives x3" and "(x, y) = x3"
  then have "length (avail y) < length (avail b)" using fr[of maxAlloc b x y] by simp
  then show "((maxAlloc, W, ctxErr, headers, body @ Data x, decoder, y),
              (maxAlloc, W, ctxErr, headers, body, decoder, b))
      \<in> measure (\<lambda>(maxAlloc, W, ctxErr, headers, body, decoder, b). length (avail b))"
    and "((maxAlloc, W, ctxErr, headers, body, decoder, y),
          (maxAlloc, W, ctxErr, headers, body, decoder, b))
      \<in> measure (\<lambda>(maxAlloc, W, ctxErr, headers, body, decoder, b). length (avail b))"
    and "\<And>hs d. ((maxAlloc, W, ctxErr, headers @ hs, body, d, y),
                  (maxAlloc, W, ctxErr, headers, body, decoder, b))
      \<in> measure (\<lambda>(maxAlloc, W, ctxErr, headers, body, decoder, b). length (avail b))"
    by simp_all
qed

declare readFrames.simps [simp del]

text \<open>
  What the surroundings of one call of \<open>SendHTTP3Request\<close> do: the error, if any, of the
  lookup, of \<open>strconv.Atoi\<close> on the port, of opening the UDP endpoint, of the QUIC dial, of
  the two steps of \<open>setupSession\<close>, of opening the request stream and of closing its
  write side; then the response stream, the state of the context at the failed read, and
  the largest buffer \<open>make\<close> gives.
\<close>

record h3env =
  h3LookUp :: "error option"
  h3Atoi :: "error option"
  h3ListenPacket :: "error option"
  h3Dial :: "error option"
  h3OpenUniStream :: "error option"
  h3SetupWrite :: "error option"
  h3OpenStream :: "error option"
  h3Close :: "error option"
  h3Stream :: reader
  h3CtxErr :: bool
  h3MaxAlloc :: nat

definition setupSession :: "h3env \<Rightarrow> error option" where
  "setupSession env =
     (case h3OpenUniStream env of
        Some err \<Rightarrow> Some err
      | None \<Rightarrow> (case h3SetupWrite env of Some err \<Rightarrow> Some err | None \<Rightarrow> None))"

text \<open>
  The result is a panic (of \<open>writeVarInt\<close>, while the request is built, or of \<open>make\<close>,
  while the response is read) or the pair the Go function returns; a nil
  \<open>*types.HttpResponse\<close> is \<open>None\<close>.
\<close>

definition SendHTTP3Request ::
  "'e fieldEncoder \<Rightarrow> 'e \<Rightarrow> 'd fieldDecoder \<Rightarrow> 'd \<Rightarrow> h3env \<Rightarrow> HTTPMessage
     \<Rightarrow> panic + (HTTPMessage option \<times> error option)" where
  "SendHTTP3Request WF e0 W d0 env request =
     (case h3LookUp env of Some err \<Rightarrow> Inr (None, Some err) | None \<Rightarrow>
     (case h3Atoi env of Some err \<Rightarrow> Inr (None, Some (ErrInvalidPort err)) | None \<Rightarrow>
     (case h3ListenPacket env of Some err \<Rightarrow> Inr (None, Some err) | None \<Rightarrow>
     (case h3Dial env of Some err \<Rightarrow> Inr (None, Some err) | None \<Rightarrow>
     (case setupSession env of Some err \<Rightarrow> Inr (None, Some err) | None \<Rightarrow>
     (case h3OpenStream env of Some err \<Rightarrow> Inr (None, Some err) | None \<Rightarrow>
     (case prepareHTTP3Request WF e0 request of Inl p \<Rightarrow> Inl p | Inr frames \<Rightarrow>
     (case h3Close env of Some err \<Rightarrow> Inr (None, Some err) | None \<Rightarrow>
        readFrames (h3MaxAlloc env) W (h3CtxErr env) [] [] d0 (h3Stream env)))))))))"

section \<open>Properties of the variable-length integer codec\<close>


lemma ucast_byte_take: "(ucast (ucast (w::uint64) :: byte) :: uint64) = take_bit 8 w"
  by (rule bit_eqI) (auto simp add: bit_simps)

lemma drop_nat_small: "unat (v::uint64) < 2 ^ (k + 6) \<Longrightarrow> drop_bit k (unat v) < 64"
proof -
  assume "unat v < 2 ^ (k + 6)"
  then have "unat v < 64 * 2 ^ k" by (simp add: power_add mult.commute)
  then have "unat v div 2 ^ k < 64" by (rule less_mult_imp_div_less)
  then show ?thesis by (simp add: drop_bit_eq_div)
qed

lemma hi_small: "unat (v::uint64) < 2 ^ (k + 6) \<Longrightarrow> (ucast (drop_bit k v) :: byte) < 64"
proof -
  assume a: "unat v < 2 ^ (k + 6)"
  have "take_bit 8 (drop_bit k (unat v)) \<le> drop_bit k (unat v)"
    by (rule take_bit_nat_less_eq_self)
  with drop_nat_small[OF a] have "take_bit 8 (drop_bit k (unat v)) < 64"
    by linarith
  then show ?thesis
    by (simp add: word_less_nat_alt unat_drop_bit_eq unsigned_ucast_eq)
qed

lemma top_byte: "unat (v::uint64) < 2 ^ (k + 6) \<Longrightarrow> take_bit 8 (drop_bit k v) = drop_bit k v"
proof -
  assume a: "unat v < 2 ^ (k + 6)"
  have "drop_bit k (unat v) < 2 ^ 8" using drop_nat_small[OF a] by simp
  then have "take_bit 8 (drop_bit k (unat v)) = drop_bit k (unat v)"
    by (simp only: take_bit_nat_eq_self)
  then show ?thesis
    by (simp add: word_eq_iff_unsigned[where ?'a = nat] unsigned_take_bit_eq unat_drop_bit_eq)
qed

lemma drop_split: "drop_bit k (v::uint64) = take_bit 8 (drop_bit k v) + push_bit 8 (drop_bit (k + 8) v)"
proof -
  have "drop_bit k v = push_bit 8 (drop_bit 8 (drop_bit k v)) + take_bit 8 (drop_bit k v)"
    by (simp only: bits_ident)
  then show ?thesis by (simp add: add.commute)
qed

lemma low6: "(x::byte) < 64 \<Longrightarrow> x AND 0x3f = x"
  using less_mask_eq[of x 6] by (simp add: mask_eq_decr_exp)

lemma class_lo: "(x::byte) < 64 \<Longrightarrow> c AND 0x3f = 0 \<Longrightarrow>  (x OR c) AND 0x3f = x"
  by (simp add: bit.conj_disj_distrib2 low6) 

lemma class_hi: "(x::byte) < 64 \<Longrightarrow> c AND 0xc0 = c \<Longrightarrow> (x OR c) AND 0xc0 = c"
proof -
  assume a: "x < 64" and c: "c AND 0xc0 = c"
  have "x AND 0xc0 = (x AND 0x3f) AND 0xc0" using a by (simp add: low6)
  also have "\<dots> = x AND (0x3f AND 0xc0)" by (simp only: and.assoc)
  also have "\<dots> = 0" by simp
  finally show ?thesis using c by (simp add: bit.conj_disj_distrib2)
qed

lemma ReadByte_Cons: "avail r = x # xs \<Longrightarrow> ReadByte r = Inr (x, r\<lparr>avail := xs\<rparr>)"
  by (simp add: ReadByte_def)

lemma bindE_Inr: "bindE (Inr x) f = f x"
  by (simp add: bindE_def)

lemma bindE_Inl: "bindE (Inl e) f = Inl e"
  by (simp add: bindE_def)



lemma read1:
  assumes v: "unat v < 2 ^ 6" and r: "avail r = ucast v # rest"
  shows "readVarInt r = Inr (v, r\<lparr>avail := rest\<rparr>)"
proof -
  let ?x = "ucast v :: byte"
  have x: "(ucast (drop_bit 0 v) :: byte) < 64" by (rule hi_small) (use v in simp)
  have t: "take_bit 8 (drop_bit 0 v) = drop_bit 0 v" by (rule top_byte) (use v in simp)
  have lo: "?x AND (0xff - 0xc0) = ?x" using class_lo[of ?x 0] x by simp
  have hi: "?x AND 0xc0 = 0" using class_hi[of ?x 0] x by simp
  have "readVarInt r = Inr (ucast ?x, r\<lparr>avail := rest\<rparr>)"
    apply (simp only: readVarInt_def ReadByte_Cons[OF r] bindE_Inr prod.case Let_def lo hi)
    apply simp
    done
  then show ?thesis using t by (simp add: ucast_byte_take)
qed

lemma read2:
  assumes v: "unat v < 2 ^ 14" and r: "avail r = (ucast (drop_bit 8 v) OR 0x40) # ucast v # rest"
  shows "readVarInt r = Inr (v, r\<lparr>avail := rest\<rparr>)"
proof -
  let ?x = "ucast (drop_bit 8 v) :: byte"
  have x: "?x < 64" by (rule hi_small) (use v in simp)
  have t: "take_bit 8 (drop_bit 8 v) = drop_bit 8 v" by (rule top_byte) (use v in simp)
  have lo: "(?x OR 0x40) AND (0xff - 0xc0) = ?x" using class_lo[of ?x "0x40"] x by simp
  have hi: "(?x OR 0x40) AND 0xc0 = 0x40" using class_hi[of ?x "0x40"] x by simp
  have val: "take_bit 8 v + push_bit 8 (drop_bit 8 v) = v"
    using drop_split[of 0 v] by simp
  have r2: "avail (r\<lparr>avail := ucast v # rest\<rparr>) = ucast v # rest" by simp
  have "readVarInt r = Inr (ucast (ucast v :: byte) + push_bit 8 (ucast ?x), r\<lparr>avail := rest\<rparr>)"
    apply (simp only: readVarInt_def ReadByte_Cons[OF r] ReadByte_Cons[OF r2] bindE_Inr prod.case Let_def lo hi)
    apply simp
    done
  then show ?thesis by (simp add: t ucast_byte_take val)
qed

lemma val4: "take_bit 8 v + push_bit 8 (take_bit 8 (drop_bit 8 v)) + push_bit 16 (take_bit 8 (drop_bit 16 v))
    + push_bit 24 (drop_bit 24 v) = (v::uint64)"
proof -
  have "v = take_bit 8 v + push_bit 8 (drop_bit 8 v)" using drop_split[of 0 v] by simp
  also have "drop_bit 8 v = take_bit 8 (drop_bit 8 v) + push_bit 8 (drop_bit 16 v)"
    using drop_split[of 8 v] by simp
  also have "drop_bit 16 v = take_bit 8 (drop_bit 16 v) + push_bit 8 (drop_bit 24 v)"
    using drop_split[of 16 v] by simp
  finally show ?thesis by (simp add: push_bit_add add.assoc)
qed

lemma read4:
  assumes v: "unat v < 2 ^ 30"
    and r: "avail r = (ucast (drop_bit 24 v) OR 0x80) # ucast (drop_bit 16 v) # ucast (drop_bit 8 v) # ucast v # rest"
  shows "readVarInt r = Inr (v, r\<lparr>avail := rest\<rparr>)"
proof -
  let ?x = "ucast (drop_bit 24 v) :: byte"
  have x: "?x < 64" by (rule hi_small) (use v in simp)
  have t: "take_bit 8 (drop_bit 24 v) = drop_bit 24 v" by (rule top_byte) (use v in simp)
  have lo: "(?x OR 0x80) AND (0xff - 0xc0) = ?x" using class_lo[of ?x "0x80"] x by simp
  have hi: "(?x OR 0x80) AND 0xc0 = 0x80" using class_hi[of ?x "0x80"] x by simp
  have rd: "\<And>y ys. ReadByte (r\<lparr>avail := y # ys\<rparr>) = Inr (y, r\<lparr>avail := ys\<rparr>)"
    by (simp add: ReadByte_def)
  have "readVarInt r = Inr (ucast (ucast v :: byte) + push_bit 8 (ucast (ucast (drop_bit 8 v) :: byte))
      + push_bit 16 (ucast (ucast (drop_bit 16 v) :: byte)) + push_bit 24 (ucast ?x), r\<lparr>avail := rest\<rparr>)"
    apply (simp only: readVarInt_def ReadByte_Cons[OF r] rd bindE_Inr prod.case Let_def lo hi)
    apply simp
    done
  then show ?thesis by (simp add: t ucast_byte_take val4)
qed

lemma val8: "take_bit 8 v + push_bit 8 (take_bit 8 (drop_bit 8 v)) + push_bit 16 (take_bit 8 (drop_bit 16 v))
    + push_bit 24 (take_bit 8 (drop_bit 24 v)) + push_bit 32 (take_bit 8 (drop_bit 32 v))
    + push_bit 40 (take_bit 8 (drop_bit 40 v)) + push_bit 48 (take_bit 8 (drop_bit 48 v))
    + push_bit 56 (drop_bit 56 v) = (v::uint64)"
proof -
  have "v = take_bit 8 v + push_bit 8 (drop_bit 8 v)" using drop_split[of 0 v] by simp
  also have "drop_bit 8 v = take_bit 8 (drop_bit 8 v) + push_bit 8 (drop_bit 16 v)"
    using drop_split[of 8 v] by simp
  also have "drop_bit 16 v = take_bit 8 (drop_bit 16 v) + push_bit 8 (drop_bit 24 v)"
    using drop_split[of 16 v] by simp
  also have "drop_bit 24 v = take_bit 8 (drop_bit 24 v) + push_bit 8 (drop_bit 32 v)"
    using drop_split[of 24 v] by simp
  also have "drop_bit 32 v = take_bit 8 (drop_bit 32 v) + push_bit 8 (drop_bit 40 v)"
    using drop_split[of 32 v] by simp
  also have "drop_bit 40 v = take_bit 8 (drop_bit 40 v) + push_bit 8 (drop_bit 48 v)"
    using drop_split[of 40 v] by simp
  also have "drop_bit 48 v = take_bit 8 (drop_bit 48 v) + push_bit 8 (drop_bit 56 v)"
    using drop_split[of 48 v] by simp
  finally show ?thesis by (simp add: push_bit_add add.assoc)
qed

lemma read8:
  assumes v: "unat v < 2 ^ 62"
    and r: "avail r = (ucast (drop_bit 56 v) OR 0xc0) # ucast (drop_bit 48 v) # ucast (drop_bit 40 v)
        # ucast (drop_bit 32 v) # ucast (drop_bit 24 v) # ucast (drop_bit 16 v) # ucast (drop_bit 8 v) # ucast v # rest"
  shows "readVarInt r = Inr (v, r\<lparr>avail := rest\<rparr>)"
proof -
  let ?x = "ucast (drop_bit 56 v) :: byte"
  have x: "?x < 64" by (rule hi_small) (use v in simp)
  have t: "take_bit 8 (drop_bit 56 v) = drop_bit 56 v" by (rule top_byte) (use v in simp)
  have lo: "(?x OR 0xc0) AND (0xff - 0xc0) = ?x" using class_lo[of ?x "0xc0"] x by simp
  have hi: "(?x OR 0xc0) AND 0xc0 = 0xc0" using class_hi[of ?x "0xc0"] x by simp
  have rd: "\<And>y ys. ReadByte (r\<lparr>avail := y # ys\<rparr>) = Inr (y, r\<lparr>avail := ys\<rparr>)"
    by (simp add: ReadByte_def)
  have "readVarInt r = Inr (ucast (ucast v :: byte) + push_bit 8 (ucast (ucast (drop_bit 8 v) :: byte))
      + push_bit 16 (ucast (ucast (drop_bit 16 v) :: byte)) 
      + push_bit 24 (ucast (ucast (drop_bit 24 v) :: byte)) 
      + push_bit 32 (ucast (ucast (drop_bit 32 v) :: byte)) 
      + push_bit 40 (ucast (ucast (drop_bit 40 v) :: byte)) 
      + push_bit 48 (ucast (ucast (drop_bit 48 v) :: byte)) 
      + push_bit 56 (ucast ?x), r\<lparr>avail := rest\<rparr>)"
    apply (simp only: readVarInt_def ReadByte_Cons[OF r] rd bindE_Inr prod.case Let_def lo hi)
    apply simp
    done
  then show ?thesis by (simp add: t ucast_byte_take val8)
qed


lemma upt_2: "[0..<2] = [0, 1::nat]" by code_simp
lemma upt_4: "[0..<4] = [0, 1, 2, 3::nat]" by code_simp
lemma upt_8: "[0..<8] = [0, 1, 2, 3, 4, 5, 6, 7::nat]" by code_simp

lemma varIntForm_1: "varIntForm (Suc 0) v = [ucast v]"
  by (simp add: varIntForm_def bigEndian_def classBits_def)

lemma varIntForm_2: "varIntForm 2 v = [ucast (drop_bit 8 v) OR 0x40, ucast v]"
  by (simp add: varIntForm_def bigEndian_def classBits_def upt_2 upt_4 upt_8)

lemma varIntForm_4: "varIntForm 4 v =
    [ucast (drop_bit 24 v) OR 0x80, ucast (drop_bit 16 v), ucast (drop_bit 8 v), ucast v]"
  by (simp add: varIntForm_def bigEndian_def classBits_def upt_2 upt_4 upt_8)

lemma varIntForm_8: "varIntForm 8 v =
    [ucast (drop_bit 56 v) OR 0xc0, ucast (drop_bit 48 v), ucast (drop_bit 40 v),
     ucast (drop_bit 32 v), ucast (drop_bit 24 v), ucast (drop_bit 16 v),
     ucast (drop_bit 8 v), ucast v]"
  by (simp add: varIntForm_def bigEndian_def classBits_def upt_2 upt_4 upt_8)

lemma readVarInt_form:
  assumes w: "w = 1 \<or> w = 2 \<or> w = 4 \<or> w = 8"
    and v: "unat v < 2 ^ (8 * w - 2)"
    and r: "avail r = varIntForm w v @ rest"
  shows "readVarInt r = Inr (v, r\<lparr>avail := rest\<rparr>)"
proof -
  consider "w = 1" | "w = 2" | "w = 4" | "w = 8" using w by blast
  then show ?thesis
  proof cases
    case 1
    with v r show ?thesis by (intro read1) (simp_all add: varIntForm_1)
  next
    case 2
    with v r show ?thesis by (intro read2) (simp_all add: varIntForm_2)
  next
    case 3
    with v r show ?thesis by (intro read4) (simp_all add: varIntForm_4)
  next
    case 4
    with v r show ?thesis by (intro read8) (simp_all add: varIntForm_8)
  qed
qed

lemma writeVarInt_form:
  assumes "i \<le> maxVarInt8"
  shows "writeVarInt b i = Inr (b @ varIntForm
     (if i \<le> 63 then 1 else if i \<le> 16383 then 2 else if i \<le> 1073741823 then 4 else 8) i)"
  using assms
  by (simp add: writeVarInt_def maxVarInt1_def maxVarInt2_def maxVarInt4_def
      varIntForm_1 varIntForm_2 varIntForm_4 varIntForm_8)

lemma length_varIntForm: "w = 1 \<or> w = 2 \<or> w = 4 \<or> w = 8 \<Longrightarrow> length (varIntForm w v) = w"
  by (auto simp add: varIntForm_1 varIntForm_2 varIntForm_4 varIntForm_8)

lemma class_fits:
  assumes "i \<le> maxVarInt8"
  shows "unat i < 2 ^ (8 * (if i \<le> 63 then 1 else if i \<le> 16383 then 2 else if i \<le> 1073741823 then 4 else (8::nat)) - 2)"
  using assms by (simp add: maxVarInt8_def word_le_nat_alt)

text \<open>
  Claim C2. For every value that fits in 62 bits, \<open>writeVarInt\<close> succeeds, \<open>readVarInt\<close>
  on the bytes written (whatever follows them) returns the value and leaves the rest
  unread, and the number of bytes written is 1 up to 63, 2 up to 16383, 4 up to
  1073741823 and 8 up to 4611686018427387903.
\<close>

theorem varint_roundtrip:
  assumes "i \<le> maxVarInt8"
  shows "\<exists>bs. writeVarInt b i = Inr (b @ bs)
           \<and> readVarInt \<lparr>avail = bs @ rest, closing = c\<rparr> = Inr (i, \<lparr>avail = rest, closing = c\<rparr>)
           \<and> length bs = (if i \<le> 63 then 1 else if i \<le> 16383 then 2
                           else if i \<le> 1073741823 then 4 else 8)"
proof -
  let ?w = "if i \<le> 63 then 1 else if i \<le> 16383 then 2 else if i \<le> 1073741823 then 4 else (8::nat)"
  have w: "?w = 1 \<or> ?w = 2 \<or> ?w = 4 \<or> ?w = 8" by simp
  have "readVarInt \<lparr>avail = varIntForm ?w i @ rest, closing = c\<rparr>
      = Inr (i, \<lparr>avail = varIntForm ?w i @ rest, closing = c\<rparr>\<lparr>avail := rest\<rparr>)"
    by (rule readVarInt_form[OF w class_fits[OF assms]]) simp
  then show ?thesis
    using writeVarInt_form[OF assms, of b] length_varIntForm[OF w, of i] by simp
qed


theorem varint_roundtrip_witness:
  "(0::uint64) \<le> maxVarInt8 \<and> 63 \<le> maxVarInt8 \<and> 64 \<le> maxVarInt8 \<and> 16383 \<le> maxVarInt8
   \<and> 16384 \<le> maxVarInt8 \<and> 1073741823 \<le> maxVarInt8 \<and> 1073741824 \<le> maxVarInt8
   \<and> 4611686018427387903 \<le> maxVarInt8
   \<and> (\<exists>bs. writeVarInt [] 0 = Inr bs \<and> length bs = 1
        \<and> readVarInt \<lparr>avail = bs, closing = EOF\<rparr> = Inr (0, \<lparr>avail = [], closing = EOF\<rparr>))
   \<and> (\<exists>bs. writeVarInt [] 63 = Inr bs \<and> length bs = 1
        \<and> readVarInt \<lparr>avail = bs, closing = EOF\<rparr> = Inr (63, \<lparr>avail = [], closing = EOF\<rparr>))
   \<and> (\<exists>bs. writeVarInt [] 64 = Inr bs \<and> length bs = 2
        \<and> readVarInt \<lparr>avail = bs, closing = EOF\<rparr> = Inr (64, \<lparr>avail = [], closing = EOF\<rparr>))
   \<and> (\<exists>bs. writeVarInt [] 16383 = Inr bs \<and> length bs = 2
        \<and> readVarInt \<lparr>avail = bs, closing = EOF\<rparr> = Inr (16383, \<lparr>avail = [], closing = EOF\<rparr>))
   \<and> (\<exists>bs. writeVarInt [] 16384 = Inr bs \<and> length bs = 4
        \<and> readVarInt \<lparr>avail = bs, closing = EOF\<rparr> = Inr (16384, \<lparr>avail = [], closing = EOF\<rparr>))
   \<and> (\<exists>bs. writeVarInt [] 1073741823 = Inr bs \<and> length bs = 4
        \<and> readVarInt \<lparr>avail = bs, closing = EOF\<rparr> = Inr (1073741823, \<lparr>avail = [], closing = EOF\<rparr>))
   \<and> (\<exists>bs. writeVarInt [] 1073741824 = Inr bs \<and> length bs = 8
        \<and> readVarInt \<lparr>avail = bs, closing = EOF\<rparr> = Inr (1073741824, \<lparr>avail = [], closing = EOF\<rparr>))
   \<and> (\<exists>bs. writeVarInt [] 4611686018427387903 = Inr bs \<and> length bs = 8
        \<and> readVarInt \<lparr>avail = bs, closing = EOF\<rparr>
            = Inr (4611686018427387903, \<lparr>avail = [], closing = EOF\<rparr>))"
  using varint_roundtrip[of 0 "[]" "[]" EOF] varint_roundtrip[of 63 "[]" "[]" EOF] varint_roundtrip[of 64 "[]" "[]" EOF]
    varint_roundtrip[of 16383 "[]" "[]" EOF] varint_roundtrip[of 16384 "[]" "[]" EOF] varint_roundtrip[of 1073741823 "[]" "[]" EOF]
    varint_roundtrip[of 1073741824 "[]" "[]" EOF] varint_roundtrip[of 4611686018427387903 "[]" "[]" EOF]
  by (simp add: maxVarInt8_def conj_commute conj_left_commute)

text \<open>
  Claim C10. Decoding accepts every width: for \<open>w\<close> one of 1, 2, 4, 8 and a value below
  \<open>2 ^ (8 * w - 2)\<close>, the \<open>w\<close>-byte big-endian form with the class bits of \<open>w\<close> in the
  first byte decodes to that value, so a non-minimal form decodes to the same value as
  the canonical one.
\<close>

theorem readVarInt_any_width:
  assumes "w = 1 \<or> w = 2 \<or> w = 4 \<or> w = 8"
    and "unat v < 2 ^ (8 * w - 2)"
  shows "readVarInt \<lparr>avail = varIntForm w v @ rest, closing = c\<rparr>
           = Inr (v, \<lparr>avail = rest, closing = c\<rparr>)"
proof -
  have "readVarInt \<lparr>avail = varIntForm w v @ rest, closing = c\<rparr>
      = Inr (v, \<lparr>avail = varIntForm w v @ rest, closing = c\<rparr>\<lparr>avail := rest\<rparr>)"
    by (rule readVarInt_form[OF assms]) simp
  then show ?thesis by simp
qed

theorem readVarInt_any_width_witness:
  "unat (5::uint64) < 2 ^ (8 * 1 - 2) \<and> unat (5::uint64) < 2 ^ (8 * 2 - 2)
   \<and> unat (5::uint64) < 2 ^ (8 * 4 - 2) \<and> unat (5::uint64) < 2 ^ (8 * 8 - 2)
   \<and> readVarInt \<lparr>avail = [0x05], closing = EOF\<rparr> = Inr (5, \<lparr>avail = [], closing = EOF\<rparr>)
   \<and> readVarInt \<lparr>avail = [0x40, 0x05], closing = EOF\<rparr> = Inr (5, \<lparr>avail = [], closing = EOF\<rparr>)
   \<and> readVarInt \<lparr>avail = [0x80, 0, 0, 0x05], closing = EOF\<rparr> = Inr (5, \<lparr>avail = [], closing = EOF\<rparr>)
   \<and> readVarInt \<lparr>avail = [0xc0, 0, 0, 0, 0, 0, 0, 0x05], closing = EOF\<rparr>
         = Inr (5, \<lparr>avail = [], closing = EOF\<rparr>)"
  using readVarInt_any_width[of 1 5 "[]" EOF] readVarInt_any_width[of 2 5 "[]" EOF] readVarInt_any_width[of 4 5 "[]" EOF] readVarInt_any_width[of 8 5 "[]" EOF]
  by (simp add: varIntForm_1 varIntForm_2 varIntForm_4 varIntForm_8)



section \<open>Properties of the literal header block\<close>

lemma byte_low7: "(x::byte) < 128 \<Longrightarrow> x AND 0x7f = x"
  using less_mask_eq[of x 7] by (simp add: mask_eq_decr_exp)

lemma byte_low7_hi: "(x::byte) < 128 \<Longrightarrow> x AND 0x80 = 0"
proof -
  assume a: "x < 128"
  have "x AND 0x80 = (x AND 0x7f) AND 0x80" using a by (simp add: byte_low7)
  also have "\<dots> = x AND (0x7f AND 0x80)" by (simp only: and.assoc)
  also have "\<dots> = 0" by simp
  finally show ?thesis .
qed

lemma of_nat_byte_less: "n < 128 \<Longrightarrow> (of_nat n :: byte) < 128"
  by (simp add: word_less_nat_alt unat_of_nat)

lemma unat_of_nat_byte: "n < 128 \<Longrightarrow> unat (of_nat n :: byte) = n"
  by (simp add: unat_of_nat)

lemma byte_flagged: "n < 128 \<Longrightarrow> (128 + of_nat n :: byte) = 0x80 OR of_nat n"
proof -
  assume a: "n < 128"
  have "(0x80::byte) AND of_nat n = 0"
    using byte_low7_hi[OF of_nat_byte_less[OF a]] by (simp add: and.commute)
  then have "(0x80::byte) + of_nat n = 0x80 OR of_nat n" by (rule disjunctive_add_eq_or)
  then show ?thesis by simp
qed

lemma flagged_low: "n < 128 \<Longrightarrow> unat ((128 + of_nat n :: byte) AND 0x7f) = n"
proof -
  assume a: "n < 128"
  have "((0x80::byte) OR of_nat n) AND 0x7f = of_nat n"
    using byte_low7[OF of_nat_byte_less[OF a]] by (simp add: bit.conj_disj_distrib2)
  then show ?thesis using a by (simp add: byte_flagged unat_of_nat_byte)
qed

lemma flagged_hi: "n < 128 \<Longrightarrow> (128 + of_nat n :: byte) AND 0x80 = 0x80"
proof -
  assume a: "n < 128"
  have "((0x80::byte) OR of_nat n) AND 0x80 = 0x80"
    using byte_low7_hi[OF of_nat_byte_less[OF a]] by (simp add: bit.conj_disj_distrib2)
  then show ?thesis using a by (simp add: byte_flagged)
qed

lemma plain_low: "n < 128 \<Longrightarrow> unat ((of_nat n :: byte) AND 0x7f) = n"
  using byte_low7[OF of_nat_byte_less, of n] by (simp add: unat_of_nat_byte)

lemma plain_hi: "n < 128 \<Longrightarrow> (of_nat n :: byte) AND 0x80 = 0"
  by (rule byte_low7_hi[OF of_nat_byte_less])

lemma decodeContinuation_continuation7:
  "decodeContinuation i m (map of_nat (continuation7 v) @ rest) = Some (i + v * 2 ^ m, rest)"
proof (induction v arbitrary: i m rule: continuation7.induct)
  case (1 v)
  show ?case
  proof (cases "v < 128")
    case True
    then show ?thesis
      by (simp add: continuation7.simps[of v] plain_low plain_hi)
  next
    case False
    have lt: "v mod 128 < 128" by simp
    have "decodeContinuation i m (map of_nat (continuation7 v) @ rest)
        = decodeContinuation (i + (v mod 128) * 2 ^ m) (m + 7) (map of_nat (continuation7 (v div 128)) @ rest)"
      using False by (simp add: continuation7.simps[of v] flagged_low[OF lt] flagged_hi[OF lt])
    also have "\<dots> = Some (i + (v mod 128) * 2 ^ m + (v div 128) * 2 ^ (m + 7), rest)"
      by (rule "1.IH"[OF False])
    also have "i + (v mod 128) * 2 ^ m + (v div 128) * 2 ^ (m + 7) = i + v * 2 ^ m"
    proof -
      have p7: "(2::nat) ^ (m + 7) = 2 ^ m * 128" by (simp add: power_add)
      have g: "\<And>a d p::nat. a * p + d * (p * 128) = (a + d * 128) * p"
        by (simp add: algebra_simps)
      have "(v mod 128) * 2 ^ m + (v div 128) * 2 ^ (m + 7) = (v mod 128 + (v div 128) * 128) * 2 ^ m"
        unfolding p7 by (rule g)
      also have "v mod 128 + (v div 128) * 128 = v" by simp
      finally show ?thesis by simp
    qed
    finally show ?thesis .
  qed
qed

lemma decodeInteger_prefixedInt7:
  "decodeInteger 7 (map of_nat (prefixedInt7 v) @ rest) = Some (v, rest)"
proof (cases "v < 127")
  case True
  then have "v < 128" by simp
  then have "unat ((of_nat v :: byte) AND mask 7) = v"
    using plain_low[of v] by (simp add: mask_eq_decr_exp)
  then show ?thesis using True by (simp add: prefixedInt7_def decodeInteger_def)
next
  case False
  have "unat ((127 :: byte) AND mask 7) = 127" by (simp add: mask_eq_decr_exp)
  then show ?thesis using False
    by (simp add: prefixedInt7_def decodeInteger_def decodeContinuation_continuation7)
qed


lemma decodeString_literal:
  "decodeString (map of_nat (prefixedInt7 (length s)) @ s @ rest) = Some (s, rest)"
proof -
  have i: "decodeInteger 7 (map of_nat (prefixedInt7 (length s)) @ s @ rest) = Some (length s, s @ rest)"
    by (rule decodeInteger_prefixedInt7)
  show ?thesis
  proof (cases "length s < 127")
    case True
    then have h: "(of_nat (length s) :: byte) AND 0x80 = 0" by (intro plain_hi) simp
    have f: "map of_nat (prefixedInt7 (length s)) = [of_nat (length s) :: byte]"
      using True by (simp add: prefixedInt7_def)
    show ?thesis using i unfolding f by (simp add: decodeString_def h)
  next
    case False
    have f: "map of_nat (prefixedInt7 (length s))
        = (127 :: byte) # map of_nat (continuation7 (length s - 127))"
      using False by (simp add: prefixedInt7_def)
    show ?thesis using i unfolding f by (simp add: decodeString_def)
  qed
qed

lemma decodeFields_literal:
  "length hs \<le> fuel \<Longrightarrow> decodeFields fuel (concat (map literalField hs)) = Some hs"
proof (induction hs arbitrary: fuel)
  case Nil
  then show ?case by simp
next
  case (Cons h hs)
  then obtain fuel' where fu: "fuel = Suc fuel'" and le: "length hs \<le> fuel'"
    by (cases fuel) auto
  have "decodeFields (Suc fuel') (concat (map literalField (h # hs)))
      = map_option (\<lambda>r. \<lparr>Name = Name h, Value = Value h\<rparr> # r)
          (decodeFields fuel' (concat (map literalField hs)))"
    by (simp add: literalField_def decodeString_literal)
  then show ?case using Cons.IH[OF le] fu by simp
qed

lemma length_literalField: "1 \<le> length (literalField h)"
  by (simp add: literalField_def)

lemma length_concat_literal: "length hs \<le> length (concat (map literalField hs))"
proof (induction hs)
  case Nil
  show ?case by simp
next
  case (Cons h hs)
  then show ?case using length_literalField[of h] by simp
qed

lemma decodeHeaderBlock_literal:
  "decodeHeaderBlock (concat (map literalField hs)) = Some hs"
  unfolding decodeHeaderBlock_def
  by (rule decodeFields_literal) (rule length_concat_literal)


lemma ucast_of_nat_unat: "(ucast (w::uint64) :: byte) = of_nat (unat w)"
  by (simp only: of_nat_unat)

lemma cont_byte:
  "(ucast ((0x80::uint64) OR (val AND 0x7f)) :: byte) = 128 + of_nat (unat val mod 128)"
proof -
  have lt: "unat val mod 128 < 128" by simp
  have t: "val AND 0x7f = take_bit 7 val"
    by (simp add: take_bit_eq_mask mask_eq_decr_exp)
  have "unat (take_bit 7 val) = unat val mod 2 ^ 7"
    unfolding unsigned_take_bit_eq by (simp only: take_bit_eq_mod)
  then have u: "(ucast (take_bit 7 val) :: byte) = of_nat (unat val mod 128)"
    by (simp add: ucast_of_nat_unat del: of_nat_unat)
  have "(ucast ((0x80::uint64) OR (val AND 0x7f)) :: byte) = ucast (0x80::uint64) OR ucast (take_bit 7 val)"
    by (simp only: t unsigned_or_eq)
  also have "\<dots> = 0x80 OR of_nat (unat val mod 128)" by (simp add: u)
  also have "\<dots> = 128 + of_nat (unat val mod 128)" by (simp only: byte_flagged[OF lt])
  finally show ?thesis .
qed

lemma hpackAppendVarInt_loop_eq:
  "hpackAppendVarInt_loop dst val = dst @ map of_nat (continuation7 (unat val))"
proof (induction dst val rule: hpackAppendVarInt_loop.induct)
  case (1 dst val)
  show ?case
  proof (cases "128 \<le> val")
    case True
    then have n: "\<not> unat val < 128" by (simp add: word_le_nat_alt)
    have d: "unat (drop_bit 7 val) = unat val div 128"
      unfolding unat_drop_bit_eq by (simp add: drop_bit_eq_div)
    have "hpackAppendVarInt_loop dst val
        = hpackAppendVarInt_loop (dst @ [ucast (0x80 OR (val AND 0x7f))]) (drop_bit 7 val)"
      using True by (subst hpackAppendVarInt_loop.simps) simp
    also have "\<dots> = (dst @ [ucast (0x80 OR (val AND 0x7f))]) @ map of_nat (continuation7 (unat (drop_bit 7 val)))"
      by (rule "1.IH"[OF True])
    also have "\<dots> = dst @ map of_nat (continuation7 (unat val))"
      using n by (simp only: d cont_byte continuation7.simps[of "unat val"]) simp
    finally show ?thesis .
  next
    case False
    then have n: "unat val < 128" by (simp add: word_le_nat_alt)
    have "hpackAppendVarInt_loop dst val = dst @ [ucast val]"
      using False by (subst hpackAppendVarInt_loop.simps) simp
    then show ?thesis using n
      by (simp add: continuation7.simps[of "unat val"] ucast_of_nat_unat del: of_nat_unat)
  qed
qed

lemma hpackAppendVarInt_eq:
  "hpackAppendVarInt dst 7 val = dst @ map of_nat (prefixedInt7 (unat val))"
proof (cases "val < 127")
  case True
  then have "unat val < 127" by (simp add: word_less_nat_alt)
  then show ?thesis using True
    by (simp add: hpackAppendVarInt_def prefixedInt7_def ucast_of_nat_unat del: of_nat_unat)
next
  case False
  then have n: "\<not> unat val < 127" by (simp add: word_less_nat_alt)
  have "127 \<le> val" using False by simp
  then have "unat (val - 127) = unat val - unat (127 :: uint64)" by (rule unat_sub)
  then have u: "unat (val - 127) = unat val - 127" by simp
  show ?thesis using False n
    by (simp add: hpackAppendVarInt_def prefixedInt7_def hpackAppendVarInt_loop_eq u)
qed

lemma hpackAppendHeader_eq:
  assumes "length (Name h) < 2 ^ 63" and "length (Value h) < 2 ^ 63"
  shows "hpackAppendHeader dst h = dst @ literalField h"
proof -
  have n: "unat (of_nat (length (Name h)) :: uint64) = length (Name h)"
    using assms(1) by (simp add: unat_of_nat)
  have v: "unat (of_nat (length (Value h)) :: uint64) = length (Value h)"
    using assms(2) by (simp add: unat_of_nat)
  show ?thesis
    by (simp add: hpackAppendHeader_def Let_def hpackAppendVarInt_eq n v literalField_def)
qed

lemma foldl_hpackAppendHeader:
  assumes "\<forall>h \<in> set hs. length (Name h) < 2 ^ 63 \<and> length (Value h) < 2 ^ 63"
  shows "foldl hpackAppendHeader dst hs = dst @ concat (map literalField hs)"
  using assms
proof (induction hs arbitrary: dst)
  case Nil
  show ?case by simp
next
  case (Cons h hs)
  then show ?case by (simp add: hpackAppendHeader_eq)
qed


text \<open>
  Claim C6. The header block of \<open>prepareHTTP2Request\<close> is the fields in the given order,
  each as the byte 0x10, the length of the name as a 7-bit-prefixed integer, the name, the
  length of the value likewise, and the value, empty and long strings included; reading
  the block back as literal fields returns the same fields in the same order.
\<close>

theorem header_block_literal:
  assumes "\<forall>h \<in> set hs. length (Name h) < 2 ^ 63 \<and> length (Value h) < 2 ^ 63"
  shows "foldl hpackAppendHeader [] hs = concat (map literalField hs)
       \<and> decodeHeaderBlock (foldl hpackAppendHeader [] hs) = Some hs"
proof -
  have "foldl hpackAppendHeader [] hs = [] @ concat (map literalField hs)"
    using assms by (rule foldl_hpackAppendHeader)
  then show ?thesis by (simp add: decodeHeaderBlock_literal)
qed

theorem header_block_literal_witness:
  "length (replicate 300 (0x61::byte)) < 2 ^ 63 \<and> length [0x3a, 0x61 :: byte] < 2 ^ 63
   \<and> length ([] :: byte list) < 2 ^ 63
   \<and> foldl hpackAppendHeader [] [\<lparr>Name = [], Value = replicate 300 0x61\<rparr>, \<lparr>Name = [0x3a, 0x61], Value = []\<rparr>]
       = [0x10, 0x00, 0x7f, 0xad, 0x01] @ replicate 300 0x61 @ [0x10, 0x02, 0x3a, 0x61, 0x00]
   \<and> decodeHeaderBlock (foldl hpackAppendHeader []
          [\<lparr>Name = [], Value = replicate 300 0x61\<rparr>, \<lparr>Name = [0x3a, 0x61], Value = []\<rparr>])
       = Some [\<lparr>Name = [], Value = replicate 300 0x61\<rparr>, \<lparr>Name = [0x3a, 0x61], Value = []\<rparr>]"
  using header_block_literal[of "[\<lparr>Name = [], Value = replicate 300 0x61\<rparr>, \<lparr>Name = [0x3a, 0x61], Value = []\<rparr>]"]
  by (clarsimp simp add: literalField_def prefixedInt7_def continuation7.simps)

section \<open>Properties of the HTTP/2 request\<close>

lemma chunk_lt: "k < chunkCount body \<longleftrightarrow> k * 65536 < length body"
proof -
  have "k < (length body + 65535) div 65536 \<longleftrightarrow> Suc k \<le> (length body + 65535) div 65536" by auto
  also have "\<dots> \<longleftrightarrow> Suc k * 65536 \<le> length body + 65535"
    by (rule less_eq_div_iff_mult_less_eq) simp
  also have "\<dots> \<longleftrightarrow> k * 65536 < length body" by auto
  finally show ?thesis by (simp only: chunkCount_def)
qed

lemma writeDataLoop_done: "length body \<le> start \<Longrightarrow> writeDataLoop wr body start buf = buf"
  by (subst writeDataLoop.simps) simp

lemma writeDataLoop_step:
  assumes "k < chunkCount body"
  shows "writeDataLoop wr body (k * 65536) buf
       = writeDataLoop wr body (min (Suc k * 65536) (length body)) (buf @ wr (dataCall body k))"
proof -
  let ?s = "k * 65536"
  let ?m = "min (Suc k * 65536) (length body)"
  have lt: "?s < length body" using assms by (simp only: chunk_lt)
  have e: "(if ?s + 65536 > length body then length body else ?s + 65536) = ?m"
    by (simp add: min_def)
  have "Suc k < chunkCount body \<longleftrightarrow> Suc k * 65536 < length body" by (rule chunk_lt)
  then have fl: "(?m = length body) = (Suc k = chunkCount body)"
    using assms by (auto simp add: min_def)
  have ck: "take (?m - ?s) (drop ?s body) = chunk body k"
    by (simp add: chunk_def min_def)
  show ?thesis
    by (subst writeDataLoop.simps) (simp only: lt if_True Let_def e fl ck dataCall_def)
qed

lemma writeDataLoop_chunks:
  "k \<le> chunkCount body \<Longrightarrow>
   writeDataLoop wr body (min (k * 65536) (length body)) buf
     = buf @ concat (map (\<lambda>i. wr (dataCall body i)) [k..<chunkCount body])"
proof (induction "chunkCount body - k" arbitrary: k buf)
  case 0
  then have "\<not> k < chunkCount body" by simp
  then have "length body \<le> k * 65536" by (simp add: chunk_lt)
  then show ?case using 0 by (simp add: writeDataLoop_done)
next
  case (Suc d)
  then have lt: "k < chunkCount body" by simp
  then have s: "min (k * 65536) (length body) = k * 65536" by (simp add: chunk_lt)
  have d: "d = chunkCount body - Suc k" using Suc.hyps(2) by simp
  have le: "Suc k \<le> chunkCount body" using lt by simp
  have "writeDataLoop wr body (k * 65536) buf
      = (buf @ wr (dataCall body k)) @ concat (map (\<lambda>i. wr (dataCall body i)) [Suc k..<chunkCount body])"
    unfolding writeDataLoop_step[OF lt] by (rule Suc.hyps(1)[OF d le])
  then show ?case unfolding s using lt by (simp add: upt_conv_Cons)
qed

lemma concat_chunks_take:
  "concat (map (chunk body) [0..<n]) = take (n * 65536) body"
proof (induction n)
  case 0
  show ?case by simp
next
  case (Suc n)
  have "take (n * 65536) body @ take 65536 (drop (n * 65536) body) = take (n * 65536 + 65536) body"
    by (simp add: take_add)
  then show ?case using Suc by (simp add: chunk_def add.commute)
qed

lemma concat_chunks: "concat (map (chunk body) [0..<chunkCount body]) = body"
proof -
  have "length body \<le> chunkCount body * 65536"
    using chunk_lt[of "chunkCount body" body] by simp
  then show ?thesis by (simp add: concat_chunks_take)
qed

lemma chunkCount_0: "chunkCount body = 0 \<longleftrightarrow> body = []"
  using chunk_lt[of 0 body] by auto















section \<open>Properties of the HTTP/2 read loop\<close>

lemma readLoop_finished:
  "headersDone st \<Longrightarrow> \<not> hasBody st \<or> bodyRead st \<Longrightarrow> readLoop W failure st fs = (response st, None)"
  by (cases fs) auto

lemma readLoop_skip:
  assumes "frameStreamID f \<noteq> 1" and "\<And>sid code. f \<noteq> GoAwayFrame sid code"
  shows "readLoop W failure st (f # rest) = readLoop W failure st rest"
proof (cases "\<not> headersDone st \<or> (hasBody st \<and> \<not> bodyRead st)")
  case True
  then show ?thesis using assms by (cases f) auto
next
  case False
  then have h: "headersDone st" "\<not> hasBody st \<or> bodyRead st" by auto
  show ?thesis by (simp only: readLoop_finished[OF h])
qed

lemma readLoop_other:
  "sid \<noteq> 1 \<Longrightarrow> readLoop W failure st (OtherFrame sid # rest) = readLoop W failure st rest"
  by (rule readLoop_skip) simp_all

lemma readLoop_data_more:
  assumes "headersDone st" and "hasBody st" and "\<not> bodyRead st"
  shows "readLoop W failure st (map (\<lambda>c. DataFrame 1 c False) cs @ rest)
       = readLoop W failure
           (st\<lparr>response := (response st)\<lparr>Body := Body (response st) @ concat cs\<rparr>, bodyRead := False\<rparr>) rest"
  using assms
proof (induction cs arbitrary: st)
  case Nil
  then have "st\<lparr>response := (response st)\<lparr>Body := Body (response st) @ concat []\<rparr>, bodyRead := False\<rparr> = st"
    by (cases st) simp
  then show ?case by simp
next
  case (Cons c cs)
  let ?st = "st\<lparr>response := (response st)\<lparr>Body := Body (response st) @ c\<rparr>, bodyRead := False\<rparr>"
  have "readLoop W failure st (map (\<lambda>c. DataFrame 1 c False) (c # cs) @ rest)
      = readLoop W failure ?st (map (\<lambda>c. DataFrame 1 c False) cs @ rest)"
    using Cons.prems by simp
  also have "\<dots> = readLoop W failure
      (?st\<lparr>response := (response ?st)\<lparr>Body := Body (response ?st) @ concat cs\<rparr>, bodyRead := False\<rparr>) rest"
    by (rule Cons.IH) (use Cons.prems in simp_all)
  finally show ?case by simp
qed

lemma readLoop_data_last:
  assumes "headersDone st" and "hasBody st" and "\<not> bodyRead st"
  shows "readLoop W failure st (DataFrame 1 c True # rest)
       = ((response st)\<lparr>Body := Body (response st) @ c\<rparr>, None)"
  using assms by (simp add: readLoop_finished)

lemma readLoop_chunks:
  assumes "headersDone st" and "hasBody st" and "\<not> bodyRead st"
  shows "readLoop W failure st (map (\<lambda>c. DataFrame 1 c False) cs @ DataFrame 1 c True # rest)
       = ((response st)\<lparr>Body := Body (response st) @ concat cs @ c\<rparr>, None)"
proof -
  let ?st = "st\<lparr>response := (response st)\<lparr>Body := Body (response st) @ concat cs\<rparr>, bodyRead := False\<rparr>"
  have "readLoop W failure ?st (DataFrame 1 c True # rest)
      = ((response ?st)\<lparr>Body := Body (response ?st) @ c\<rparr>, None)"
    by (rule readLoop_data_last) (use assms in simp_all)
  then show ?thesis unfolding readLoop_data_more[OF assms] by simp
qed

lemma readLoop_headers:
  assumes "W d0 blk = (d1, hs, None)"
  shows "readLoop W failure (initialState d0) (HeadersFrame 1 blk True es # rest)
       = readLoop W failure
           \<lparr>response = \<lparr>Headers = hs, Body = []\<rparr>, headersDecoder = d1,
            hasBody = \<not> es, bodyRead = False, headersDone = True\<rparr> rest"
  using assms by (simp add: initialState_def)

lemma data_frames_split:
  assumes "0 < n"
  shows "map (\<lambda>i. DataFrame 1 (g i) (Suc i = n)) [0..<n]
       = map (\<lambda>c. DataFrame 1 c False) (map g [0..<n - 1]) @ [DataFrame 1 (g (n - 1)) True]"
proof -
  obtain m where n: "n = Suc m" using assms by (cases n) auto
  show ?thesis unfolding n by simp
qed

text \<open>
  Claim C3. The chunks the body is cut into have at most 65536 bytes each and put
  together in order are the body; the request is the preface followed by the frames
  listed; a reader fed those frames, as received, returns the body unchanged (with the
  fields its decompressor gives for the header block); and so it does for any other
  cutting of a body into DATA frames of which the last alone ends the stream.
\<close>

theorem body_chunking_roundtrip:
  assumes "W d0 (foldl hpackAppendHeader [] (Headers request)) = (d1, hs, None)"
  shows "(\<forall>i < chunkCount (Body request). length (chunk (Body request) i) \<le> 65536)
       \<and> concat (map (chunk (Body request)) [0..<chunkCount (Body request)]) = Body request
       \<and> prepareHTTP2Request wr request
           = ClientPreface @ concat (map wr
               ([WriteSettings [\<lparr>ID = SettingInitialWindowSize, Val = 1073741823\<rparr>],
                 WriteWindowUpdate 0 1073676287,
                 WriteHeaders \<lparr>StreamID = 1, BlockFragment = foldl hpackAppendHeader [] (Headers request),
                               EndStream = (Body request = []), EndHeaders = True\<rparr>]
                @ map (dataCall (Body request)) [0..<chunkCount (Body request)]
                @ [WriteSettingsAck]))
       \<and> readLoop W failure (initialState d0) (map received
               ([WriteSettings [\<lparr>ID = SettingInitialWindowSize, Val = 1073741823\<rparr>],
                 WriteWindowUpdate 0 1073676287,
                 WriteHeaders \<lparr>StreamID = 1, BlockFragment = foldl hpackAppendHeader [] (Headers request),
                               EndStream = (Body request = []), EndHeaders = True\<rparr>]
                @ map (dataCall (Body request)) [0..<chunkCount (Body request)]
                @ [WriteSettingsAck]))
           = (\<lparr>Headers = hs, Body = Body request\<rparr>, None)
       \<and> (\<forall>cs c. readLoop W failure (initialState d0)
               (HeadersFrame 1 (foldl hpackAppendHeader [] (Headers request)) True False
                  # map (\<lambda>c. DataFrame 1 c False) cs @ [DataFrame 1 c True])
             = (\<lparr>Headers = hs, Body = concat cs @ c\<rparr>, None))"
proof (intro conjI allI impI)
  fix i show "length (chunk (Body request) i) \<le> 65536" by (simp add: chunk_def)
next
  show "concat (map (chunk (Body request)) [0..<chunkCount (Body request)]) = Body request"
    by (rule concat_chunks)
next
  show "prepareHTTP2Request wr request
           = ClientPreface @ concat (map wr
               ([WriteSettings [\<lparr>ID = SettingInitialWindowSize, Val = 1073741823\<rparr>],
                 WriteWindowUpdate 0 1073676287,
                 WriteHeaders \<lparr>StreamID = 1, BlockFragment = foldl hpackAppendHeader [] (Headers request),
                               EndStream = (Body request = []), EndHeaders = True\<rparr>]
                @ map (dataCall (Body request)) [0..<chunkCount (Body request)]
                @ [WriteSettingsAck]))"
    using writeDataLoop_chunks[of 0 "Body request" wr]
    by (simp add: prepareHTTP2Request_def Let_def comp_def)
next
  let ?body = "Body request"
  let ?n = "chunkCount ?body"
  let ?blk = "foldl hpackAppendHeader [] (Headers request)"
  let ?st = "\<lparr>response = \<lparr>Headers = hs, Body = []\<rparr>, headersDecoder = d1,
            hasBody = \<not> (?body = []), bodyRead = False, headersDone = True\<rparr>"
  have frames: "map received
               ([WriteSettings [\<lparr>ID = SettingInitialWindowSize, Val = 1073741823\<rparr>],
                 WriteWindowUpdate 0 1073676287,
                 WriteHeaders \<lparr>StreamID = 1, BlockFragment = ?blk,
                               EndStream = (?body = []), EndHeaders = True\<rparr>]
                @ map (dataCall ?body) [0..<?n] @ [WriteSettingsAck])
       = OtherFrame 0 # OtherFrame 0 # HeadersFrame 1 ?blk True (?body = [])
           # map (\<lambda>i. DataFrame 1 (chunk ?body i) (Suc i = ?n)) [0..<?n] @ [OtherFrame 0]"
    by (simp add: dataCall_def comp_def)
  have z: "(0::uint32) \<noteq> 1" by simp
  have skip: "readLoop W failure (initialState d0) (map received
               ([WriteSettings [\<lparr>ID = SettingInitialWindowSize, Val = 1073741823\<rparr>],
                 WriteWindowUpdate 0 1073676287,
                 WriteHeaders \<lparr>StreamID = 1, BlockFragment = ?blk,
                               EndStream = (?body = []), EndHeaders = True\<rparr>]
                @ map (dataCall ?body) [0..<?n] @ [WriteSettingsAck]))
       = readLoop W failure ?st
           (map (\<lambda>i. DataFrame 1 (chunk ?body i) (Suc i = ?n)) [0..<?n] @ [OtherFrame 0])"
    by (simp only: frames readLoop_other[OF z] readLoop_headers[of W d0 "foldl hpackAppendHeader [] (Headers request)" d1 hs, OF assms])
  show "readLoop W failure (initialState d0) (map received
               ([WriteSettings [\<lparr>ID = SettingInitialWindowSize, Val = 1073741823\<rparr>],
                 WriteWindowUpdate 0 1073676287,
                 WriteHeaders \<lparr>StreamID = 1, BlockFragment = ?blk,
                               EndStream = (?body = []), EndHeaders = True\<rparr>]
                @ map (dataCall ?body) [0..<?n] @ [WriteSettingsAck]))
           = (\<lparr>Headers = hs, Body = ?body\<rparr>, None)"
  proof (cases "?body = []")
    case True
    then have "?n = 0" by (simp add: chunkCount_0)
    then show ?thesis unfolding skip using True by (simp add: readLoop_finished)
  next
    case False
    then have pos: "0 < ?n" using chunkCount_0[of ?body] by simp
    have c: "concat (map (chunk ?body) [0..<?n - 1]) @ chunk ?body (?n - 1) = ?body"
    proof -
      obtain m where m: "?n = Suc m" using pos by (cases ?n) auto
      show ?thesis using concat_chunks[of ?body] unfolding m by simp
    qed
    have "readLoop W failure ?st
           (map (\<lambda>i. DataFrame 1 (chunk ?body i) (Suc i = ?n)) [0..<?n] @ [OtherFrame 0])
        = readLoop W failure ?st
           (map (\<lambda>c. DataFrame 1 c False) (map (chunk ?body) [0..<?n - 1])
              @ DataFrame 1 (chunk ?body (?n - 1)) True # [OtherFrame 0])"
      by (simp only: data_frames_split[OF pos] append_assoc append_Cons append_Nil)
    also have "\<dots> = ((response ?st)\<lparr>Body := Body (response ?st)
                   @ concat (map (chunk ?body) [0..<?n - 1]) @ chunk ?body (?n - 1)\<rparr>, None)"
      by (rule readLoop_chunks) (use False in simp_all)
    finally show ?thesis unfolding skip using c by simp
  qed
next
  fix cs c
  let ?st = "\<lparr>response = \<lparr>Headers = hs, Body = []\<rparr>, headersDecoder = d1,
            hasBody = \<not> False, bodyRead = False, headersDone = True\<rparr>"
  have "readLoop W failure ?st (map (\<lambda>c. DataFrame 1 c False) cs @ DataFrame 1 c True # [])
      = ((response ?st)\<lparr>Body := Body (response ?st) @ concat cs @ c\<rparr>, None)"
    by (rule readLoop_chunks) simp_all
  then show "readLoop W failure (initialState d0)
               (HeadersFrame 1 (foldl hpackAppendHeader [] (Headers request)) True False
                  # map (\<lambda>c. DataFrame 1 c False) cs @ [DataFrame 1 c True])
             = (\<lparr>Headers = hs, Body = concat cs @ c\<rparr>, None)"
    unfolding readLoop_headers[of W d0 "foldl hpackAppendHeader [] (Headers request)" d1 hs, OF assms] by simp
qed



lemma literalDecoder_block:
  assumes "\<forall>h \<in> set hs. length (Name h) < 2 ^ 63 \<and> length (Value h) < 2 ^ 63"
  shows "literalDecoder d (foldl hpackAppendHeader [] hs) = (d, hs, None)"
  using foldl_hpackAppendHeader[OF assms, of "[]"]
  by (simp add: literalDecoder_def decodeHeaderBlock_literal)

theorem body_chunking_roundtrip_witness:
  "literalDecoder () (foldl hpackAppendHeader [] [\<lparr>Name = [0x61], Value = [0x62]\<rparr>])
      = ((), [\<lparr>Name = [0x61], Value = [0x62]\<rparr>], None)
   \<and> chunkCount (replicate 200000 0x2a) = 4
   \<and> readLoop literalDecoder EOF (initialState ())
        [OtherFrame 0, OtherFrame 0,
         HeadersFrame 1 (foldl hpackAppendHeader [] [\<lparr>Name = [0x61], Value = [0x62]\<rparr>]) True False,
         DataFrame 1 (replicate 65536 0x2a) False, DataFrame 1 (replicate 65536 0x2a) False,
         DataFrame 1 (replicate 65536 0x2a) False, DataFrame 1 (replicate 3392 0x2a) True,
         OtherFrame 0]
      = (\<lparr>Headers = [\<lparr>Name = [0x61], Value = [0x62]\<rparr>], Body = replicate 200000 0x2a\<rparr>, None)"
proof -
  let ?hs = "[\<lparr>Name = [0x61], Value = [0x62]\<rparr>]"
  have h: "literalDecoder () (foldl hpackAppendHeader [] (Headers \<lparr>Headers = ?hs, Body = replicate 200000 0x2a\<rparr>))
      = ((), ?hs, None)"
    using literalDecoder_block[of ?hs "()"] by simp
  have n: "chunkCount (replicate 200000 (0x2a::byte)) = 4" by (simp add: chunkCount_def)
  show ?thesis
    using h body_chunking_roundtrip[of literalDecoder "()" "\<lparr>Headers = ?hs, Body = replicate 200000 0x2a\<rparr>" "()" ?hs
        rfcFramer EOF]
    by (simp add: n upt_4 dataCall_def chunk_def)
qed

lemma readLoop_skip_many:
  assumes "\<forall>f \<in> set pre. frameStreamID f \<noteq> 1 \<and> (\<forall>sid code. f \<noteq> GoAwayFrame sid code)"
  shows "readLoop W failure st (pre @ rest) = readLoop W failure st rest"
  using assms
proof (induction pre)
  case Nil
  show ?case by simp
next
  case (Cons f pre)
  then have "readLoop W failure st (f # (pre @ rest)) = readLoop W failure st (pre @ rest)"
    by (intro readLoop_skip) auto
  then show ?case using Cons by simp
qed

lemma readLoop_goaway:
  assumes "\<not> headersDone st \<or> (hasBody st \<and> \<not> bodyRead st)"
  shows "readLoop W failure st (GoAwayFrame sid code # rest)
       = (\<lparr>Headers = [], Body = []\<rparr>, Some (ErrGoAway code))"
  using assms by auto

text \<open>
  Claim C4. While the loop is still reading: a frame that is not GOAWAY and whose stream
  identifier is not 1 changes nothing; GOAWAY, on whatever stream and after any number of
  such ignored frames, ends the call with the error that carries its code; RST_STREAM on
  stream 1 ends it with the error that carries its code. A call whose first frame is
  GOAWAY returns that error.
\<close>

theorem readLoop_protocol_signals:
  assumes "\<not> headersDone st \<or> (hasBody st \<and> \<not> bodyRead st)"
  shows "(frameStreamID f \<noteq> 1 \<and> (\<forall>sid code. f \<noteq> GoAwayFrame sid code)
            \<longrightarrow> readLoop W failure st (f # rest) = readLoop W failure st rest)
       \<and> readLoop W failure st (GoAwayFrame sid code # rest)
            = (\<lparr>Headers = [], Body = []\<rparr>, Some (ErrGoAway code))
       \<and> ((\<forall>f \<in> set pre. frameStreamID f \<noteq> 1 \<and> (\<forall>sid code. f \<noteq> GoAwayFrame sid code))
            \<longrightarrow> readLoop W failure st (pre @ GoAwayFrame sid code # rest)
                  = (\<lparr>Headers = [], Body = []\<rparr>, Some (ErrGoAway code)))
       \<and> readLoop W failure st (RSTStreamFrame 1 code # rest)
            = (\<lparr>Headers = [], Body = []\<rparr>, Some (ErrRSTStream code))
       \<and> SendHTTP2Request W d0
            \<lparr>h2LookUp = None, h2Dial = None, h2KeyLogFile = k, h2OpenFile = None, h2Write = None,
             h2Frames = GoAwayFrame sid code # rest, h2ReadError = failure\<rparr>
            = (\<lparr>Headers = [], Body = []\<rparr>, Some (ErrGoAway code))"
proof (intro conjI impI)
  assume "frameStreamID f \<noteq> 1 \<and> (\<forall>sid code. f \<noteq> GoAwayFrame sid code)"
  then show "readLoop W failure st (f # rest) = readLoop W failure st rest"
    by (intro readLoop_skip) auto
next
  show "readLoop W failure st (GoAwayFrame sid code # rest)
      = (\<lparr>Headers = [], Body = []\<rparr>, Some (ErrGoAway code))"
    by (rule readLoop_goaway[OF assms])
next
  assume "\<forall>f \<in> set pre. frameStreamID f \<noteq> 1 \<and> (\<forall>sid code. f \<noteq> GoAwayFrame sid code)"
  then have "readLoop W failure st (pre @ GoAwayFrame sid code # rest)
      = readLoop W failure st (GoAwayFrame sid code # rest)"
    by (rule readLoop_skip_many)
  then show "readLoop W failure st (pre @ GoAwayFrame sid code # rest)
      = (\<lparr>Headers = [], Body = []\<rparr>, Some (ErrGoAway code))"
    by (simp only: readLoop_goaway[OF assms])
next
  show "readLoop W failure st (RSTStreamFrame 1 code # rest)
      = (\<lparr>Headers = [], Body = []\<rparr>, Some (ErrRSTStream code))"
    using assms by auto
next
  show "SendHTTP2Request W d0
            \<lparr>h2LookUp = None, h2Dial = None, h2KeyLogFile = k, h2OpenFile = None, h2Write = None,
             h2Frames = GoAwayFrame sid code # rest, h2ReadError = failure\<rparr>
            = (\<lparr>Headers = [], Body = []\<rparr>, Some (ErrGoAway code))"
    by (simp add: SendHTTP2Request_def initialState_def)
qed

theorem readLoop_protocol_signals_witness:
  "headersDone (initialState ()) = False
   \<and> readLoop literalDecoder EOF (initialState ()) [OtherFrame 0, DataFrame 3 [1] True, GoAwayFrame 0 7]
        = (\<lparr>Headers = [], Body = []\<rparr>, Some (ErrGoAway 7))
   \<and> readLoop literalDecoder EOF (initialState ()) [GoAwayFrame 1 7, HeadersFrame 1 [] True True]
        = (\<lparr>Headers = [], Body = []\<rparr>, Some (ErrGoAway 7))
   \<and> readLoop literalDecoder EOF (initialState ()) [RSTStreamFrame 1 8]
        = (\<lparr>Headers = [], Body = []\<rparr>, Some (ErrRSTStream 8))"
  using readLoop_protocol_signals[where st = "initialState ()" and f = "OtherFrame 0"
      and W = literalDecoder and failure = EOF and rest = "[]" and sid = 0 and code = 7
      and pre = "[OtherFrame 0, DataFrame 3 [1] True]" and ?d0.0 = "()" and k = "[]"]
    readLoop_protocol_signals[where st = "initialState ()" and f = "OtherFrame 0"
      and W = literalDecoder and failure = EOF and rest = "[HeadersFrame 1 [] True True]"
      and sid = 1 and code = 7 and pre = "[]" and ?d0.0 = "()" and k = "[]"]
    readLoop_protocol_signals[where st = "initialState ()" and f = "OtherFrame 0"
      and W = literalDecoder and failure = EOF and rest = "[]"
      and sid = 1 and code = 8 and pre = "[]" and ?d0.0 = "()" and k = "[]"]
  by (simp add: initialState_def)

section \<open>Properties of the HTTP/3 path\<close>







lemma readFrame_end: "avail r = [] \<Longrightarrow> readFrame maxAlloc r = Fails (closing r)"
  by (simp add: readFrame_def readVarInt_def ReadByte_def bindE_def)

lemma readFrames_panic:
  assumes "readFrame maxAlloc b = Panics p"
  shows "readFrames maxAlloc W ctxErr headers body decoder b = Inl p"
  using assms by (subst readFrames.simps) simp

lemma readFrames_fail:
  assumes "readFrame maxAlloc b = Fails err"
  shows "readFrames maxAlloc W ctxErr headers body decoder b =
     (if ctxErr then Inr (None, Some ErrTimeout)
      else if err = EOF then Inr (Some \<lparr>Headers = headers, Body = body\<rparr>, None)
      else if (case err of QuicError isApp \<Rightarrow> isApp | _ \<Rightarrow> False) then Inr (None, Some ErrConnDrop)
      else Inr (None, Some err))"
  using assms by (subst readFrames.simps) simp

lemma readFrames_data:
  assumes "readFrame maxAlloc b = Gives (frame, b')" and "Type frame = 0"
  shows "readFrames maxAlloc W ctxErr headers body decoder b
       = readFrames maxAlloc W ctxErr headers (body @ Data frame) decoder b'"
  using assms by (subst readFrames.simps) simp

lemma readFrames_headers:
  assumes "readFrame maxAlloc b = Gives (frame, b')" and "Type frame = 1"
    and "W decoder (Data frame) = (d, emitted, None)"
  shows "readFrames maxAlloc W ctxErr headers body decoder b
       = readFrames maxAlloc W ctxErr (headers @ emitted) body d b'"
  using assms by (subst readFrames.simps) simp

lemma readFrames_decoder_error:
  assumes "readFrame maxAlloc b = Gives (frame, b')" and "Type frame = 1"
    and "W decoder (Data frame) = (d, emitted, Some err)"
  shows "readFrames maxAlloc W ctxErr headers body decoder b = Inr (None, Some err)"
  using assms by (subst readFrames.simps) simp

lemma readFrames_other:
  assumes "readFrame maxAlloc b = Gives (frame, b')" and "Type frame \<noteq> 0" and "Type frame \<noteq> 1"
  shows "readFrames maxAlloc W ctxErr headers body decoder b
       = readFrames maxAlloc W ctxErr headers body decoder b'"
  using assms by (subst readFrames.simps) simp


lemma readFrames_ctx_expired:
  "readFrames maxAlloc W True headers body decoder b = Inr r \<Longrightarrow> fst r = None"
proof (induction maxAlloc W "True" headers body decoder b rule: readFrames.induct)
  case (1 maxAlloc W headers body decoder b)
  show ?case
  proof (cases "readFrame maxAlloc b")
    case (Panics p)
    then show ?thesis using "1.prems" by (simp add: readFrames_panic)
  next
    case (Fails err)
    then show ?thesis using "1.prems" by (auto simp add: readFrames_fail)
  next
    case (Gives p)
    obtain frame b' where p: "p = (frame, b')" by (cases p)
    note g = Gives[unfolded p]
    show ?thesis
    proof (cases "Type frame = 0")
      case True
      show ?thesis
        using "1.prems" "1.hyps"(1)[OF Gives p[symmetric] True]
        unfolding readFrames_data[OF g True] by simp
    next
      case nz: False
      show ?thesis
      proof (cases "Type frame = 1")
        case False
        show ?thesis
          using "1.prems" "1.hyps"(3)[OF Gives p[symmetric] nz False]
          unfolding readFrames_other[OF g nz False] by simp
      next
        case True
        obtain d emitted e where w: "W decoder (Data frame) = (d, emitted, e)"
          by (cases "W decoder (Data frame)")
        show ?thesis
        proof (cases e)
          case (Some err)
          then show ?thesis using "1.prems" readFrames_decoder_error[where W = W and decoder = decoder, OF g True w[unfolded Some]]
            by auto
        next
          case None
          show ?thesis
            using "1.prems" "1.hyps"(2)[OF Gives p[symmetric] nz True] w None
            unfolding readFrames_headers[where W = W and decoder = decoder, OF g True w[unfolded None]] by simp
        qed
      qed
    qed
  qed
qed










text \<open>
  Claim C7. When a read fails: with the context expired the result is the timeout error,
  whatever the read error was; otherwise a clean end of stream returns the message
  accumulated, with no error, and an error that reports itself as an application error
  returns the connection-drop error. The three outcomes differ. With the context expired
  the loop never returns a message; on a stream that delivers nothing it returns the
  timeout error, and so does the whole call.
\<close>

theorem readFrames_failure_outcomes:
  "(readFrame maxAlloc b = Fails err \<longrightarrow>
      readFrames maxAlloc W True headers body decoder b = Inr (None, Some ErrTimeout))
   \<and> (readFrame maxAlloc b = Fails EOF \<longrightarrow>
      readFrames maxAlloc W False headers body decoder b
        = Inr (Some \<lparr>Headers = headers, Body = body\<rparr>, None))
   \<and> (readFrame maxAlloc b = Fails (QuicError True) \<longrightarrow>
      readFrames maxAlloc W False headers body decoder b = Inr (None, Some ErrConnDrop))
   \<and> ErrTimeout \<noteq> EOF \<and> ErrConnDrop \<noteq> ErrTimeout \<and> ErrConnDrop \<noteq> EOF
   \<and> (\<forall>r. readFrames maxAlloc W True headers body decoder b = Inr r \<longrightarrow> fst r = None)
   \<and> readFrames maxAlloc W True [] [] decoder \<lparr>avail = [], closing = err\<rparr>
        = Inr (None, Some ErrTimeout)
   \<and> (h3LookUp env = None \<and> h3Atoi env = None \<and> h3ListenPacket env = None \<and> h3Dial env = None
        \<and> h3OpenUniStream env = None \<and> h3SetupWrite env = None \<and> h3OpenStream env = None
        \<and> h3Close env = None \<and> prepareHTTP3Request WF e0 request = Inr frames
        \<and> avail (h3Stream env) = [] \<and> h3CtxErr env
        \<longrightarrow> SendHTTP3Request WF e0 W decoder env request = Inr (None, Some ErrTimeout))"
proof (intro conjI impI allI)
  assume "readFrame maxAlloc b = Fails err"
  then show "readFrames maxAlloc W True headers body decoder b = Inr (None, Some ErrTimeout)"
    by (simp add: readFrames_fail)
next
  assume "readFrame maxAlloc b = Fails EOF"
  then show "readFrames maxAlloc W False headers body decoder b
      = Inr (Some \<lparr>Headers = headers, Body = body\<rparr>, None)"
    by (simp add: readFrames_fail)
next
  assume "readFrame maxAlloc b = Fails (QuicError True)"
  then show "readFrames maxAlloc W False headers body decoder b = Inr (None, Some ErrConnDrop)"
    by (simp add: readFrames_fail)
next
  fix r assume "readFrames maxAlloc W True headers body decoder b = Inr r"
  then show "fst r = None" by (rule readFrames_ctx_expired)
next
  have "readFrame maxAlloc \<lparr>avail = [], closing = err\<rparr> = Fails (closing \<lparr>avail = [], closing = err\<rparr>)"
    by (rule readFrame_end) simp
  then show "readFrames maxAlloc W True [] [] decoder \<lparr>avail = [], closing = err\<rparr>
      = Inr (None, Some ErrTimeout)"
    by (simp add: readFrames_fail)
next
  assume a: "h3LookUp env = None \<and> h3Atoi env = None \<and> h3ListenPacket env = None \<and> h3Dial env = None
        \<and> h3OpenUniStream env = None \<and> h3SetupWrite env = None \<and> h3OpenStream env = None
        \<and> h3Close env = None \<and> prepareHTTP3Request WF e0 request = Inr frames
        \<and> avail (h3Stream env) = [] \<and> h3CtxErr env"
  then have "readFrame (h3MaxAlloc env) (h3Stream env) = Fails (closing (h3Stream env))"
    by (intro readFrame_end) simp
  then have "readFrames (h3MaxAlloc env) W True [] [] decoder (h3Stream env) = Inr (None, Some ErrTimeout)"
    by (simp add: readFrames_fail)
  then show "SendHTTP3Request WF e0 W decoder env request = Inr (None, Some ErrTimeout)"
    using a by (simp add: SendHTTP3Request_def setupSession_def)
qed (simp_all)

theorem readFrames_failure_outcomes_witness:
  "readFrame 1000 \<lparr>avail = [], closing = EOF\<rparr> = Fails EOF
   \<and> readFrames 1000 literalDecoder True [] [] () \<lparr>avail = [], closing = EOF\<rparr>
        = Inr (None, Some ErrTimeout)
   \<and> readFrames 1000 literalDecoder False [] [] () \<lparr>avail = [], closing = EOF\<rparr>
        = Inr (Some \<lparr>Headers = [], Body = []\<rparr>, None)
   \<and> readFrame 1000 \<lparr>avail = [], closing = QuicError True\<rparr> = Fails (QuicError True)
   \<and> readFrames 1000 literalDecoder False [] [] () \<lparr>avail = [], closing = QuicError True\<rparr>
        = Inr (None, Some ErrConnDrop)
   \<and> prepareHTTP3Request literalEncoder () \<lparr>Headers = [], Body = []\<rparr> = Inr [[0x01, 0x00]]
   \<and> SendHTTP3Request literalEncoder () literalDecoder ()
        \<lparr>h3LookUp = None, h3Atoi = None, h3ListenPacket = None, h3Dial = None,
         h3OpenUniStream = None, h3SetupWrite = None, h3OpenStream = None, h3Close = None,
         h3Stream = \<lparr>avail = [], closing = OtherError 1\<rparr>, h3CtxErr = True, h3MaxAlloc = 1000\<rparr>
        \<lparr>Headers = [], Body = []\<rparr>
        = Inr (None, Some ErrTimeout)"
proof -
  have p: "prepareHTTP3Request literalEncoder () \<lparr>Headers = [], Body = []\<rparr> = Inr [[0x01, 0x00]]"
    by (simp add: prepareHTTP3Request_def encodeHeaders_def encodeBody_def writeVarInt_def
        maxVarInt1_def bindE_def)
  have e1: "readFrame 1000 \<lparr>avail = [], closing = EOF\<rparr> = Fails EOF"
    and e2: "readFrame 1000 \<lparr>avail = [], closing = QuicError True\<rparr> = Fails (QuicError True)"
    by (simp_all add: readFrame_end)
  show ?thesis
    using p e1 e2
      readFrames_failure_outcomes[where b = "\<lparr>avail = [], closing = EOF\<rparr>" and err = EOF
        and maxAlloc = 1000
        and W = literalDecoder and headers = "[]" and body = "[]" and decoder = "()"
        and WF = literalEncoder and ?e0.0 = "()" and request = "\<lparr>Headers = [], Body = []\<rparr>"
        and frames = "[[0x01, 0x00]]"
        and env = "\<lparr>h3LookUp = None, h3Atoi = None, h3ListenPacket = None, h3Dial = None,
         h3OpenUniStream = None, h3SetupWrite = None, h3OpenStream = None, h3Close = None,
         h3Stream = \<lparr>avail = [], closing = OtherError 1\<rparr>, h3CtxErr = True, h3MaxAlloc = 1000\<rparr>"]
      readFrames_failure_outcomes[where b = "\<lparr>avail = [], closing = QuicError True\<rparr>"
        and err = "QuicError True" and maxAlloc = 1000
        and W = literalDecoder and headers = "[]" and body = "[]" and decoder = "()"
        and WF = literalEncoder and ?e0.0 = "()" and request = "\<lparr>Headers = [], Body = []\<rparr>"
        and frames = "[[0x01, 0x00]]"
        and env = "\<lparr>h3LookUp = None, h3Atoi = None, h3ListenPacket = None, h3Dial = None,
         h3OpenUniStream = None, h3SetupWrite = None, h3OpenStream = None, h3Close = None,
         h3Stream = \<lparr>avail = [], closing = OtherError 1\<rparr>, h3CtxErr = True, h3MaxAlloc = 1000\<rparr>"]
    by simp
qed

section \<open>Errors and the message returned\<close>



lemma readFrame_truncated_in_varint:
  "readFrame 281474976710656 \<lparr>avail = [0x00, 0x40], closing = EOF\<rparr> = Fails EOF"
  by (simp add: readFrame_def readVarInt_def ReadByte_def bindE_def)

lemma readFrame_length_beyond_limit:
  "readFrame 281474976710656 \<lparr>avail = [0x00, 0xc0, 0x02, 0, 0, 0, 0, 0, 0], closing = EOF\<rparr>
     = Panics (MakeSlice 562949953421312)"
  by (simp add: readFrame_def readVarInt_def ReadByte_def bindE_def)




end
